theory Spec2Isabelle
  imports Complex_Main "HOL-Library.Word" "HOL-Library.Multiset"
begin

section \<open>JavaScript numbers\<close>

text \<open>
  The analyzers of \<^verbatim>\<open>photo-analyzer.tsx\<close> compute with JavaScript numbers. A number is
  modelled as a real, one of the two infinities, or \<^verbatim>\<open>NaN\<close>. The plain operations
  (\<open>js_add\<close>, \<open>js_mul\<close>, \<open>js_div\<close>, \<dots>) are exact: a finite result is the real one. The
  operations with the suffix \<open>64\<close> round it to the nearest double (\<open>binary64\<close>); they are
  used where the rounded value decides what the code does next: in the luma of a pixel,
  in the conversion to HSV, the hue differences and the harmony score, and in the progress
  percentage. The two zeros are not told apart (every divisor in the code is a count, a length or a positive
  constant, so a negative zero never divides). What is modelled exactly is where the
  code leaves the finite numbers: \<^verbatim>\<open>0/0\<close> is \<^verbatim>\<open>NaN\<close>, \<^verbatim>\<open>x/0\<close> is an infinity, and
  \<^verbatim>\<open>NaN\<close> is absorbing in arithmetic, in \<^verbatim>\<open>Math.min\<close> and in \<^verbatim>\<open>Math.max\<close>, and makes
  every comparison false. \<^verbatim>\<open>Math.sqrt\<close> and \<^verbatim>\<open>Math.exp\<close> are the functions of the reals.
\<close>

datatype jsnum = Fin real | PInf | NInf | NaN

fun js_neg :: "jsnum \<Rightarrow> jsnum" where
  "js_neg (Fin a) = Fin (- a)"
| "js_neg PInf = NInf"
| "js_neg NInf = PInf"
| "js_neg NaN = NaN"

fun js_add :: "jsnum \<Rightarrow> jsnum \<Rightarrow> jsnum" where
  "js_add (Fin a) (Fin b) = Fin (a + b)"
| "js_add NaN _ = NaN"
| "js_add _ NaN = NaN"
| "js_add PInf NInf = NaN"
| "js_add NInf PInf = NaN"
| "js_add PInf _ = PInf"
| "js_add _ PInf = PInf"
| "js_add NInf _ = NInf"
| "js_add _ NInf = NInf"

definition js_sub :: "jsnum \<Rightarrow> jsnum \<Rightarrow> jsnum" where
  "js_sub a b = js_add a (js_neg b)"

fun js_mul :: "jsnum \<Rightarrow> jsnum \<Rightarrow> jsnum" where
  "js_mul (Fin a) (Fin b) = Fin (a * b)"
| "js_mul NaN _ = NaN"
| "js_mul _ NaN = NaN"
| "js_mul PInf (Fin b) = (if b = 0 then NaN else if 0 < b then PInf else NInf)"
| "js_mul NInf (Fin b) = (if b = 0 then NaN else if 0 < b then NInf else PInf)"
| "js_mul (Fin a) PInf = (if a = 0 then NaN else if 0 < a then PInf else NInf)"
| "js_mul (Fin a) NInf = (if a = 0 then NaN else if 0 < a then NInf else PInf)"
| "js_mul PInf PInf = PInf"
| "js_mul PInf NInf = NInf"
| "js_mul NInf PInf = NInf"
| "js_mul NInf NInf = PInf"

fun js_div :: "jsnum \<Rightarrow> jsnum \<Rightarrow> jsnum" where
  "js_div (Fin a) (Fin b) =
     (if b \<noteq> 0 then Fin (a / b)
      else if a = 0 then NaN
      else if 0 < a then PInf else NInf)"
| "js_div NaN _ = NaN"
| "js_div _ NaN = NaN"
| "js_div (Fin a) PInf = Fin 0"
| "js_div (Fin a) NInf = Fin 0"
| "js_div PInf (Fin b) = (if 0 \<le> b then PInf else NInf)"
| "js_div NInf (Fin b) = (if 0 \<le> b then NInf else PInf)"
| "js_div PInf PInf = NaN"
| "js_div PInf NInf = NaN"
| "js_div NInf PInf = NaN"
| "js_div NInf NInf = NaN"

text \<open>\<^verbatim>\<open>a < b\<close>, \<^verbatim>\<open>a > b\<close>, \<^verbatim>\<open>a >= b\<close> and \<^verbatim>\<open>a === b\<close> on numbers.\<close>

fun js_lt :: "jsnum \<Rightarrow> jsnum \<Rightarrow> bool" where
  "js_lt (Fin a) (Fin b) = (a < b)"
| "js_lt NaN _ = False"
| "js_lt _ NaN = False"
| "js_lt NInf NInf = False"
| "js_lt NInf _ = True"
| "js_lt _ NInf = False"
| "js_lt PInf _ = False"
| "js_lt _ PInf = True"

definition js_gt :: "jsnum \<Rightarrow> jsnum \<Rightarrow> bool" where
  "js_gt a b = js_lt b a"

definition js_eq :: "jsnum \<Rightarrow> jsnum \<Rightarrow> bool" where
  "js_eq a b = (a \<noteq> NaN \<and> a = b)"

definition js_ge :: "jsnum \<Rightarrow> jsnum \<Rightarrow> bool" where
  "js_ge a b = (js_lt b a \<or> js_eq a b)"

text \<open>\<^verbatim>\<open>Math.max\<close>, \<^verbatim>\<open>Math.min\<close>, \<^verbatim>\<open>Math.abs\<close>, \<^verbatim>\<open>Math.sqrt\<close>, \<^verbatim>\<open>Math.round\<close>
  (half rounds up), \<^verbatim>\<open>Math.floor\<close>, \<^verbatim>\<open>Math.pow(x, 2)\<close>, \<^verbatim>\<open>Math.exp\<close> and the
  remainder \<^verbatim>\<open>%\<close> (its sign is the dividend's).\<close>

definition js_max :: "jsnum \<Rightarrow> jsnum \<Rightarrow> jsnum" where
  "js_max a b = (if a = NaN \<or> b = NaN then NaN else if js_lt a b then b else a)"

definition js_min :: "jsnum \<Rightarrow> jsnum \<Rightarrow> jsnum" where
  "js_min a b = (if a = NaN \<or> b = NaN then NaN else if js_lt b a then b else a)"

fun js_abs :: "jsnum \<Rightarrow> jsnum" where
  "js_abs (Fin a) = Fin \<bar>a\<bar>"
| "js_abs PInf = PInf"
| "js_abs NInf = PInf"
| "js_abs NaN = NaN"

fun js_sqrt :: "jsnum \<Rightarrow> jsnum" where
  "js_sqrt (Fin a) = (if a < 0 then NaN else Fin (sqrt a))"
| "js_sqrt PInf = PInf"
| "js_sqrt NInf = NaN"
| "js_sqrt NaN = NaN"

fun js_round :: "jsnum \<Rightarrow> jsnum" where
  "js_round (Fin a) = Fin (of_int \<lfloor>a + 1 / 2\<rfloor>)"
| "js_round PInf = PInf"
| "js_round NInf = NInf"
| "js_round NaN = NaN"

fun js_floor :: "jsnum \<Rightarrow> jsnum" where
  "js_floor (Fin a) = Fin (of_int \<lfloor>a\<rfloor>)"
| "js_floor PInf = PInf"
| "js_floor NInf = NInf"
| "js_floor NaN = NaN"

definition js_pow2 :: "jsnum \<Rightarrow> jsnum" where
  "js_pow2 a = js_mul a a"

fun js_exp :: "jsnum \<Rightarrow> jsnum" where
  "js_exp (Fin a) = Fin (exp a)"
| "js_exp PInf = PInf"
| "js_exp NInf = Fin 0"
| "js_exp NaN = NaN"

fun js_rem :: "jsnum \<Rightarrow> jsnum \<Rightarrow> jsnum" where
  "js_rem (Fin a) (Fin b) =
     (if b = 0 then NaN
      else Fin (a - b * of_int (if 0 \<le> a / b then \<lfloor>a / b\<rfloor> else \<lceil>a / b\<rceil>)))"
| "js_rem NaN _ = NaN"
| "js_rem _ NaN = NaN"
| "js_rem PInf _ = NaN"
| "js_rem NInf _ = NaN"
| "js_rem (Fin a) PInf = Fin a"
| "js_rem (Fin a) NInf = Fin a"

subsection \<open>Rounding to doubles\<close>

text \<open>IEEE 754 binary64 with the default rounding: a real other than 0 lies in a binade
  \<open>[2^e, 2^(e+1))\<close>, where the doubles are the multiples of \<open>2^(e-52)\<close> (of \<open>2^(-1074)\<close>
  below \<open>2^(-1022)\<close>, the subnormal numbers); the result is the nearest multiple, the one
  with the even factor where two are equally near, and an infinity where it reaches
  \<open>2^1024\<close>.\<close>

definition pow2 :: "int \<Rightarrow> real" where
  "pow2 e = (if 0 \<le> e then 2 ^ nat e else 1 / 2 ^ nat (- e))"

definition round_ties_even :: "real \<Rightarrow> int" where
  "round_ties_even q =
     (let f = \<lfloor>q\<rfloor>
      in if q - of_int f < 1 / 2 then f
         else if 1 / 2 < q - of_int f then f + 1
         else if even f then f else f + 1)"

definition binary64 :: "real \<Rightarrow> jsnum" where
  "binary64 x =
     (if x = 0 then Fin 0
      else let e = max \<lfloor>log 2 \<bar>x\<bar>\<rfloor> (- 1022);
               ulp = pow2 (e - 52);
               y = of_int (round_ties_even (\<bar>x\<bar> / ulp)) * ulp
           in if pow2 1024 \<le> y then (if 0 < x then PInf else NInf)
              else Fin (if 0 < x then y else - y))"

definition rounded :: "jsnum \<Rightarrow> jsnum" where
  "rounded v = (case v of Fin x \<Rightarrow> binary64 x | _ \<Rightarrow> v)"

text \<open>The four operations on doubles, and the double that a decimal literal of the source
  denotes.\<close>

definition js_add64 :: "jsnum \<Rightarrow> jsnum \<Rightarrow> jsnum" where
  "js_add64 a b = rounded (js_add a b)"

definition js_sub64 :: "jsnum \<Rightarrow> jsnum \<Rightarrow> jsnum" where
  "js_sub64 a b = rounded (js_sub a b)"

definition js_mul64 :: "jsnum \<Rightarrow> jsnum \<Rightarrow> jsnum" where
  "js_mul64 a b = rounded (js_mul a b)"

definition js_div64 :: "jsnum \<Rightarrow> jsnum \<Rightarrow> jsnum" where
  "js_div64 a b = rounded (js_div a b)"

definition js_lit :: "real \<Rightarrow> jsnum" where
  "js_lit x = binary64 x"

text \<open>Reading index \<open>i\<close> of an array of numbers: outside the array JavaScript reads
  \<^verbatim>\<open>undefined\<close>, which arithmetic turns into \<^verbatim>\<open>NaN\<close>.\<close>

definition js_nth :: "jsnum list \<Rightarrow> nat \<Rightarrow> jsnum" where
  "js_nth xs i = (if i < length xs then xs ! i else NaN)"

text \<open>The indices of \<^verbatim>\<open>for (v = 0; v < bound; v += step)\<close>, for a positive step. Where the
  source's bound is a difference such as \<^verbatim>\<open>height - blockSize\<close> that may be negative, the
  loop does not run, as for the bound \<open>0\<close> that the truncated subtraction of \<open>nat\<close>
  gives.\<close>

definition stride_range :: "nat \<Rightarrow> nat \<Rightarrow> nat list" where
  "stride_range bound step = map (\<lambda>k. k * step) [0..<(bound + step - 1) div step]"

section \<open>The raster\<close>

text \<open>\<^verbatim>\<open>ImageData\<close>: the width, the height and the RGBA bytes (a \<^verbatim>\<open>Uint8ClampedArray\<close>,
  four bytes a pixel, row after row). The canvas hands out rasters whose buffer has
  \<open>4 * width * height\<close> bytes.\<close>

record ImageData =
  width :: nat
  height :: nat
  data :: "8 word list"

definition wf_ImageData :: "ImageData \<Rightarrow> bool" where
  "wf_ImageData img = (length (data img) = 4 * (width img * height img))"

text \<open>\<^verbatim>\<open>imageData.data[i]\<close> as a number.\<close>

definition chan :: "8 word list \<Rightarrow> nat \<Rightarrow> jsnum" where
  "chan d i = (if i < length d then Fin (real (unat (d ! i))) else NaN)"

text \<open>\<^verbatim>\<open>Math.round(0.299 * r + 0.587 * g + 0.114 * b)\<close>, the products and the sums
  rounded to doubles as the code computes them.\<close>

definition luma :: "jsnum \<Rightarrow> jsnum \<Rightarrow> jsnum \<Rightarrow> jsnum" where
  "luma r g b =
     js_round (js_add64 (js_add64 (js_mul64 (js_lit 0.299) r) (js_mul64 (js_lit 0.587) g))
                        (js_mul64 (js_lit 0.114) b))"

text \<open>The luma of the pixel whose bytes start at index \<open>i\<close> of the buffer.\<close>

definition luma_at :: "8 word list \<Rightarrow> nat \<Rightarrow> jsnum" where
  "luma_at d i = luma (chan d i) (chan d (i + 1)) (chan d (i + 2))"

text \<open>Storing a number into a \<^verbatim>\<open>Uint8Array\<close> and into an \<^verbatim>\<open>Int16Array\<close>: a value that
  is not finite is stored as 0, a finite one is truncated and wrapped.\<close>

definition to_uint8 :: "jsnum \<Rightarrow> nat" where
  "to_uint8 v =
     (case v of
        Fin x \<Rightarrow> nat ((if 0 \<le> x then \<lfloor>x\<rfloor> else \<lceil>x\<rceil>) mod 256)
      | _ \<Rightarrow> 0)"

definition to_int16 :: "int \<Rightarrow> int" where
  "to_int16 v = (v + 32768) mod 65536 - 32768"

section \<open>Technical quality\<close>

subsection \<open>detectBlur\<close>

text \<open>The grayscale buffer: a \<^verbatim>\<open>Uint8Array\<close> of \<open>width * height\<close> zeros, entry \<open>i / 4\<close>
  written for every \<open>i = 0, 4, 8, \<dots>\<close> below the length of the data (a write past the end
  of a typed array is dropped).\<close>

definition grayscale :: "ImageData \<Rightarrow> nat list" where
  "grayscale img =
     map (\<lambda>k. if 4 * k < length (data img) then to_uint8 (luma_at (data img) (4 * k)) else 0)
         [0..<width img * height img]"

text \<open>The 3 by 3 Laplacian at index \<open>idx\<close> of a buffer \<open>w\<close> wide. The loop below calls it
  at interior pixels only, where the nine reads are inside the buffer
  (lemma \<open>laplacian_reads_in_range\<close>).\<close>

definition laplace_at :: "nat list \<Rightarrow> nat \<Rightarrow> nat \<Rightarrow> int" where
  "laplace_at gray w idx =
     - 1 * int (gray ! (idx - w - 1)) + - 1 * int (gray ! (idx - w)) + - 1 * int (gray ! (idx - w + 1)) +
     - 1 * int (gray ! (idx - 1)) + 8 * int (gray ! idx) + - 1 * int (gray ! (idx + 1)) +
     - 1 * int (gray ! (idx + w - 1)) + - 1 * int (gray ! (idx + w)) + - 1 * int (gray ! (idx + w + 1))"

definition laplacian :: "nat list \<Rightarrow> nat \<Rightarrow> nat \<Rightarrow> int list" where
  "laplacian gray w h =
     fold (\<lambda>y lap.
             fold (\<lambda>x lap. lap[y * w + x := to_int16 (laplace_at gray w (y * w + x))])
                  [1..<w - 1] lap)
          [1..<h - 1] (replicate (length gray) 0)"

text \<open>The second loop: sum, sum of squares and count over the pixels that are not on
  the border.\<close>

definition border :: "nat \<Rightarrow> nat \<Rightarrow> nat \<Rightarrow> bool" where
  "border w h i = (i mod w = 0 \<or> i mod w = w - 1 \<or> i < w \<or> (h - 1) * w \<le> i)"

definition blur_sums :: "int list \<Rightarrow> nat \<Rightarrow> nat \<Rightarrow> int \<times> int \<times> nat" where
  "blur_sums lap w h =
     fold (\<lambda>i (sum, sumSquared, count).
             if border w h i then (sum, sumSquared, count)
             else (sum + lap ! i, sumSquared + lap ! i * lap ! i, count + 1))
          [0..<length lap] (0, 0, 0)"

definition detectBlur :: "ImageData \<Rightarrow> jsnum" where
  "detectBlur img =
     (let gray = grayscale img;
          lap = laplacian gray (width img) (height img);
          (sum, sumSquared, count) = blur_sums lap (width img) (height img);
          mean = js_div (Fin (real_of_int sum)) (Fin (real count));
          variance = js_sub (js_div (Fin (real_of_int sumSquared)) (Fin (real count)))
                            (js_mul mean mean);
          normalizedScore = js_min (Fin 1) (js_max (Fin 0) (js_div variance (Fin 1000)))
      in normalizedScore)"

subsection \<open>detectNoise\<close>

text \<open>\<^verbatim>\<open>calculateBlockVariance\<close>: the lumas of the block, row after row, their mean and
  population variance, and the mean absolute difference of the horizontally and of the
  vertically adjacent pairs.\<close>

record BlockVariance =
  meanVariance :: jsnum
  noiseLevel :: jsnum

definition block_pixelValues :: "ImageData \<Rightarrow> nat \<Rightarrow> nat \<Rightarrow> nat \<Rightarrow> jsnum list" where
  "block_pixelValues img x y blockSize =
     concat (map (\<lambda>j. map (\<lambda>i. luma_at (data img) (((y + j) * width img + (x + i)) * 4))
                           [0..<blockSize])
                 [0..<blockSize])"

definition block_diffs :: "jsnum list \<Rightarrow> nat \<Rightarrow> jsnum \<times> nat" where
  "block_diffs pixelValues blockSize =
     (let horizontal =
            fold (\<lambda>j acc.
                    fold (\<lambda>i (diffSum, diffCount).
                            (js_add diffSum
                               (js_abs (js_sub (js_nth pixelValues (j * blockSize + i))
                                               (js_nth pixelValues (j * blockSize + i + 1)))),
                             diffCount + 1))
                         [0..<blockSize - 1] acc)
                 [0..<blockSize] (Fin 0, 0)
      in fold (\<lambda>i acc.
                 fold (\<lambda>j (diffSum, diffCount).
                         (js_add diffSum
                            (js_abs (js_sub (js_nth pixelValues (j * blockSize + i))
                                            (js_nth pixelValues ((j + 1) * blockSize + i)))),
                          diffCount + 1))
                      [0..<blockSize - 1] acc)
              [0..<blockSize] horizontal)"

definition calculateBlockVariance :: "ImageData \<Rightarrow> nat \<Rightarrow> nat \<Rightarrow> nat \<Rightarrow> BlockVariance" where
  "calculateBlockVariance img x y blockSize =
     (let pixelValues = block_pixelValues img x y blockSize;
          n = Fin (real (length pixelValues));
          mean = js_div (fold (\<lambda>val sum. js_add sum val) pixelValues (Fin 0)) n;
          colorVariance =
            js_div (fold (\<lambda>val sum. js_add sum (js_pow2 (js_sub val mean))) pixelValues (Fin 0)) n;
          (diffSum, diffCount) = block_diffs pixelValues blockSize;
          noise = js_div diffSum (Fin (real diffCount))
      in \<lparr>meanVariance = colorVariance, noiseLevel = noise\<rparr>)"

text \<open>The origins of the blocks the two loops of \<^verbatim>\<open>detectNoise\<close> visit, in the order
  of the visits: \<^verbatim>\<open>y = 0, 8, \<dots> < height - blockSize\<close> and, inside,
  \<^verbatim>\<open>x = 0, 8, \<dots> < width - blockSize\<close>.\<close>

definition noise_blocks :: "nat \<Rightarrow> nat \<Rightarrow> nat \<Rightarrow> (nat \<times> nat) list" where
  "noise_blocks w h blockSize =
     concat (map (\<lambda>y. map (\<lambda>x. (x, y)) (stride_range (w - blockSize) blockSize))
                 (stride_range (h - blockSize) blockSize))"

definition noise_sums :: "ImageData \<Rightarrow> (nat \<times> nat) list \<Rightarrow> jsnum \<times> nat" where
  "noise_sums img blocks =
     fold (\<lambda>(x, y) (totalNoise, uniformBlocks).
             let blockVariance = calculateBlockVariance img x y 8
             in if js_lt (meanVariance blockVariance) (Fin 100)
                then (js_add totalNoise (noiseLevel blockVariance), uniformBlocks + 1)
                else (totalNoise, uniformBlocks))
          blocks (Fin 0, 0)"

definition noise_score :: "jsnum \<Rightarrow> nat \<Rightarrow> jsnum" where
  "noise_score totalNoise uniformBlocks =
     (if uniformBlocks = 0 then Fin 0.5
      else let averageNoise = js_div totalNoise (Fin (real uniformBlocks))
           in js_min (Fin 1) (js_max (Fin 0) (js_sub (Fin 1) (js_div averageNoise (Fin 20)))))"

definition detectNoise :: "ImageData \<Rightarrow> jsnum" where
  "detectNoise img =
     (case noise_sums img (noise_blocks (width img) (height img) 8) of
        (totalNoise, uniformBlocks) \<Rightarrow> noise_score totalNoise uniformBlocks)"

text \<open>The unused local \<^verbatim>\<open>blocks\<close> of \<^verbatim>\<open>detectNoise\<close>:
  \<^verbatim>\<open>Math.floor(width / blockSize) * Math.floor(height / blockSize)\<close>, the number of full
  blocks of the image.\<close>

definition blocks_count :: "nat \<Rightarrow> nat \<Rightarrow> nat \<Rightarrow> nat" where
  "blocks_count w h blockSize = (w div blockSize) * (h div blockSize)"

subsection \<open>analyzeExposure\<close>

text \<open>The histogram: 256 zeros, the bin of each pixel's luma incremented. A pixel whose
  luma is \<^verbatim>\<open>NaN\<close> increments no bin.\<close>

definition luma_histogram :: "8 word list \<Rightarrow> nat list" where
  "luma_histogram d =
     fold (\<lambda>i histogram.
             case luma_at d i of
               Fin v \<Rightarrow> histogram[nat \<lfloor>v\<rfloor> := histogram ! nat \<lfloor>v\<rfloor> + 1]
             | _ \<Rightarrow> histogram)
          (stride_range (length d) 4) (replicate 256 0)"

definition normalizedHistogram :: "ImageData \<Rightarrow> jsnum list" where
  "normalizedHistogram img =
     map (\<lambda>count. js_div (Fin (real count)) (Fin (real (width img * height img))))
         (luma_histogram (data img))"

definition exposure_mean :: "ImageData \<Rightarrow> jsnum" where
  "exposure_mean img =
     fold (\<lambda>i mean. js_add mean (js_mul (Fin (real i)) (js_nth (normalizedHistogram img) i)))
          [0..<256] (Fin 0)"

definition exposure_stdDev :: "ImageData \<Rightarrow> jsnum" where
  "exposure_stdDev img =
     js_sqrt (fold (\<lambda>i stdDev.
                      js_add stdDev
                        (js_mul (js_pow2 (js_sub (Fin (real i)) (exposure_mean img)))
                                (js_nth (normalizedHistogram img) i)))
                   [0..<256] (Fin 0))"

definition exposure_meanScore :: "ImageData \<Rightarrow> jsnum" where
  "exposure_meanScore img =
     js_sub (Fin 1) (js_div (js_abs (js_sub (exposure_mean img) (Fin 128))) (Fin 128))"

definition exposure_stdDevScore :: "ImageData \<Rightarrow> jsnum" where
  "exposure_stdDevScore img = js_min (js_div (exposure_stdDev img) (Fin 60)) (Fin 1)"

definition analyzeExposure :: "ImageData \<Rightarrow> jsnum" where
  "analyzeExposure img =
     (let nh = normalizedHistogram img;
          darkPixelRatio = fold (\<lambda>val sum. js_add sum val) (take 50 nh) (Fin 0);
          brightPixelRatio = fold (\<lambda>val sum. js_add sum val) (take 56 (drop 200 nh)) (Fin 0);
          meanScore = exposure_meanScore img;
          stdDevScore = exposure_stdDevScore img;
          extremePixelPenalty =
            js_add (js_max (Fin 0) (js_sub darkPixelRatio (Fin 0.1)))
                   (js_max (Fin 0) (js_sub brightPixelRatio (Fin 0.1)));
          exposureScore =
            js_max (Fin 0)
              (js_sub (js_add (js_mul meanScore (Fin 0.5)) (js_mul stdDevScore (Fin 0.5)))
                      extremePixelPenalty)
      in exposureScore)"

subsection \<open>analyzeTechnicalQuality\<close>

record TechnicalQualityResult =
  blurScore :: jsnum
  noiseScore :: jsnum
  exposureScore :: jsnum
  technicalOverallScore :: jsnum

text \<open>Field \<^verbatim>\<open>overallScore\<close> of \<^verbatim>\<open>TechnicalQualityResult\<close> is \<open>technicalOverallScore\<close>
  here: the name \<open>overallScore\<close> is the field of \<^verbatim>\<open>AnalysisResult\<close>. The argument is the
  raster that the function reads back from the canvas.\<close>

definition analyzeTechnicalQuality :: "ImageData \<Rightarrow> TechnicalQualityResult" where
  "analyzeTechnicalQuality imageData =
     (let blur = detectBlur imageData;
          noise = detectNoise imageData;
          exposure = analyzeExposure imageData;
          overall = js_add (js_add (js_mul blur (Fin 0.4)) (js_mul noise (Fin 0.3)))
                           (js_mul exposure (Fin 0.3))
      in \<lparr>blurScore = blur, noiseScore = noise, exposureScore = exposure,
          technicalOverallScore = overall\<rparr>)"

section \<open>Aesthetics\<close>

subsection \<open>Array.prototype.sort\<close>

text \<open>The platform's sort with a comparator: it is stable, and an element moves behind
  another one only where the comparator's result is greater than 0 (a result that is
  \<^verbatim>\<open>NaN\<close> counts as 0). It is modelled as the stable insertion sort. Where the scores
  are finite, and where they are all \<^verbatim>\<open>NaN\<close>, the comparator is consistent and every
  stable sort delivers this list. Where \<^verbatim>\<open>NaN\<close> stands among finite scores that differ,
  the comparator is not consistent, ECMAScript leaves the order to the platform, and the
  order of the model is one such order a sort may deliver, not the platform's: no
  statement below is about the order of such a list.\<close>

fun js_insert :: "('a \<Rightarrow> 'a \<Rightarrow> jsnum) \<Rightarrow> 'a \<Rightarrow> 'a list \<Rightarrow> 'a list" where
  "js_insert cmp x [] = [x]"
| "js_insert cmp x (y # ys) =
     (if js_gt (cmp x y) (Fin 0) then y # js_insert cmp x ys else x # y # ys)"

definition js_sort :: "('a \<Rightarrow> 'a \<Rightarrow> jsnum) \<Rightarrow> 'a list \<Rightarrow> 'a list" where
  "js_sort cmp xs = foldr (js_insert cmp) xs []"

subsection \<open>extractDominantColors and analyzeColorHarmony\<close>

text \<open>\<^verbatim>\<open>rgbToHsv\<close> returns the triple of \<^verbatim>\<open>h\<close>, \<^verbatim>\<open>s\<close> and \<^verbatim>\<open>v\<close>. Its quotients, differences,
  sums and products are rounded to doubles; the remainder \<^verbatim>\<open>%\<close> of two doubles is a double
  and needs no rounding.\<close>

definition rgbToHsv :: "jsnum \<Rightarrow> jsnum \<Rightarrow> jsnum \<Rightarrow> jsnum \<times> jsnum \<times> jsnum" where
  "rgbToHsv r0 g0 b0 =
     (let r = js_div64 r0 (Fin 255);
          g = js_div64 g0 (Fin 255);
          b = js_div64 b0 (Fin 255);
          mx = js_max (js_max r g) b;
          mn = js_min (js_min r g) b;
          diff = js_sub64 mx mn;
          h = (if js_eq diff (Fin 0) then Fin 0
               else if js_eq mx r
               then js_mul64 (Fin 60) (js_rem (js_div64 (js_sub64 g b) diff) (Fin 6))
               else if js_eq mx g
               then js_mul64 (Fin 60) (js_add64 (js_div64 (js_sub64 b r) diff) (Fin 2))
               else js_mul64 (Fin 60) (js_add64 (js_div64 (js_sub64 r g) diff) (Fin 4)));
          h = (if js_lt h (Fin 0) then js_add64 h (Fin 360) else h);
          s = (if js_eq mx (Fin 0) then Fin 0 else js_div64 diff mx);
          v = mx
      in (h, s, v))"

text \<open>An entry of \<^verbatim>\<open>colorMap\<close>; the fields \<^verbatim>\<open>count\<close>, \<^verbatim>\<open>r\<close>, \<^verbatim>\<open>g\<close>, \<^verbatim>\<open>b\<close>, \<^verbatim>\<open>hue\<close>,
  \<^verbatim>\<open>sat\<close> and \<^verbatim>\<open>val\<close> carry the prefix \<open>color_\<close>. The map keeps the order of insertion;
  its key, the string of the three quantized channels separated by commas, is modelled
  as the triple of the channels (two keys are the same string exactly when the triples
  are equal).\<close>

record ColorEntry =
  color_count :: nat
  color_r :: jsnum
  color_g :: jsnum
  color_b :: jsnum
  color_hue :: jsnum
  color_sat :: jsnum
  color_val :: jsnum

type_synonym colorKey = "jsnum \<times> jsnum \<times> jsnum"

text \<open>\<^verbatim>\<open>Math.floor(c / 16) * 16\<close>: on a byte the quotient and the product are doubles as
  they are, without rounding.\<close>

definition quantize :: "jsnum \<Rightarrow> jsnum" where
  "quantize c = js_mul (js_floor (js_div c (Fin 16))) (Fin 16)"

definition color_step :: "8 word list \<Rightarrow> nat \<Rightarrow> (colorKey \<times> ColorEntry) list \<Rightarrow> (colorKey \<times> ColorEntry) list" where
  "color_step d i colorMap =
     (let idx = i * 4;
          r = chan d idx;
          g = chan d (idx + 1);
          b = chan d (idx + 2);
          hsv = rgbToHsv r g b;
          quantizedR = quantize r;
          quantizedG = quantize g;
          quantizedB = quantize b;
          colorKey = (quantizedR, quantizedG, quantizedB)
      in if map_of colorMap colorKey \<noteq> None
         then map (\<lambda>(k, e). if k = colorKey then (k, e\<lparr>color_count := color_count e + 1\<rparr>) else (k, e))
                  colorMap
         else colorMap @
              [(colorKey,
                \<lparr>color_count = 1, color_r = quantizedR, color_g = quantizedG, color_b = quantizedB,
                 color_hue = fst hsv, color_sat = fst (snd hsv), color_val = snd (snd hsv)\<rparr>)])"

definition sampleRate :: "nat \<Rightarrow> nat" where
  "sampleRate pixelCount = max 1 (pixelCount div 1000)"

text \<open>The pixel indices that the sampling loop of \<^verbatim>\<open>extractDominantColors\<close> visits.\<close>

definition sampled_pixels :: "ImageData \<Rightarrow> nat list" where
  "sampled_pixels img =
     (let pixelCount = width img * height img
      in stride_range pixelCount (sampleRate pixelCount))"

definition extractDominantColors :: "ImageData \<Rightarrow> nat \<Rightarrow> ColorEntry list" where
  "extractDominantColors img maxColors =
     (let colorMap = fold (color_step (data img)) (sampled_pixels img) [];
          sortedColors =
            take maxColors
              (js_sort (\<lambda>a b. js_sub (Fin (real (color_count b))) (Fin (real (color_count a))))
                       (map snd colorMap))
      in sortedColors)"

definition harmony_counts :: "ColorEntry list \<Rightarrow> nat \<times> nat \<times> nat" where
  "harmony_counts colors =
     fold (\<lambda>i acc.
             fold (\<lambda>j (complementaryCount, analogousCount, triadicCount).
                     let hueDiff = js_abs (js_sub64 (color_hue (colors ! i)) (color_hue (colors ! j)));
                         normalizedHueDiff = js_min hueDiff (js_sub64 (Fin 360) hueDiff)
                     in if js_gt normalizedHueDiff (Fin 165) \<and> js_lt normalizedHueDiff (Fin 195)
                        then (complementaryCount + 1, analogousCount, triadicCount)
                        else if js_lt normalizedHueDiff (Fin 30)
                        then (complementaryCount, analogousCount + 1, triadicCount)
                        else if js_gt normalizedHueDiff (Fin 105) \<and> js_lt normalizedHueDiff (Fin 135)
                        then (complementaryCount, analogousCount, triadicCount + 1)
                        else (complementaryCount, analogousCount, triadicCount))
                  [i + 1..<length colors] acc)
          [0..<length colors] (0, 0, 0)"

definition analyzeColorHarmony :: "ImageData \<Rightarrow> jsnum" where
  "analyzeColorHarmony img =
     (let colors = extractDominantColors img 5
      in if 2 \<le> length colors
         then (case harmony_counts colors of
                 (complementaryCount, analogousCount, triadicCount) \<Rightarrow>
                   js_min (Fin 1)
                     (js_div64
                        (js_add64 (js_add64 (js_mul64 (Fin (real complementaryCount)) (js_lit 0.3))
                                            (js_mul64 (Fin (real analogousCount)) (js_lit 0.2)))
                                  (js_mul64 (Fin (real triadicCount)) (js_lit 0.2)))
                        (Fin (real (length colors)))))
         else Fin 0)"

subsection \<open>analyzeComposition\<close>

text \<open>\<^verbatim>\<open>findEdges\<close> builds the same grayscale buffer as \<^verbatim>\<open>detectBlur\<close> and marks the
  interior pixels whose gradient magnitude is above 30.\<close>

definition edge_value :: "nat list \<Rightarrow> nat \<Rightarrow> nat \<Rightarrow> nat" where
  "edge_value gray w idx =
     (let gx = \<bar>int (gray ! (idx - 1)) - int (gray ! (idx + 1))\<bar>;
          gy = \<bar>int (gray ! (idx - w)) - int (gray ! (idx + w))\<bar>;
          g = js_sqrt (Fin (real_of_int (gx * gx + gy * gy)))
      in if js_gt g (Fin 30) then 255 else 0)"

definition findEdges :: "ImageData \<Rightarrow> nat list" where
  "findEdges img =
     (let w = width img; h = height img; gray = grayscale img
      in fold (\<lambda>y edges.
                 fold (\<lambda>x edges. edges[y * w + x := edge_value gray w (y * w + x)])
                      [1..<w - 1] edges)
              [1..<h - 1] (replicate (w * h) 0))"

text \<open>\<^verbatim>\<open>edges[idx] > 0\<close>; outside the array the read is \<^verbatim>\<open>undefined\<close> and the comparison
  false.\<close>

definition is_edge :: "nat list \<Rightarrow> nat \<Rightarrow> bool" where
  "is_edge edges idx = (idx < length edges \<and> 0 < edges ! idx)"

definition near_region :: "nat \<Rightarrow> nat \<Rightarrow> nat \<Rightarrow> nat \<times> nat \<Rightarrow> bool" where
  "near_region regionSize x y region =
     (\<bar>int x - int (fst region)\<bar> \<le> int regionSize \<and> \<bar>int y - int (snd region)\<bar> \<le> int regionSize)"

definition calculateRuleOfThirdsScore ::
  "nat list \<Rightarrow> nat \<Rightarrow> nat \<Rightarrow> nat \<Rightarrow> nat \<Rightarrow> nat \<Rightarrow> nat \<Rightarrow> jsnum" where
  "calculateRuleOfThirdsScore edges w h thirdX1 thirdX2 thirdY1 thirdY2 =
     (let regionSize = min w h div 10;
          regions = [(thirdX1, thirdY1), (thirdX2, thirdY1), (thirdX1, thirdY2), (thirdX2, thirdY2)];
          (totalEdgePixels, intersectionEdgePixels) =
            fold (\<lambda>y acc.
                    fold (\<lambda>x (total, inter).
                            if is_edge edges (y * w + x)
                            then (total + 1,
                                  if list_ex (near_region regionSize x y) regions then inter + 1 else inter)
                            else (total, inter))
                         [0..<w] acc)
                 [0..<h] (0 :: nat, 0 :: nat)
      in if totalEdgePixels = 0 then Fin 0.5
         else let expectedRatio =
                    js_div (Fin (real (4 * regionSize * regionSize))) (Fin (real (w * h)));
                  actualRatio = js_div (Fin (real intersectionEdgePixels)) (Fin (real totalEdgePixels))
              in js_min (Fin 1) (js_div actualRatio (js_mul expectedRatio (Fin 2))))"

text \<open>The four counters of \<^verbatim>\<open>calculateVisualBalance\<close>: left, right, top, bottom.\<close>

definition balance_weights :: "nat list \<Rightarrow> nat \<Rightarrow> nat \<Rightarrow> nat \<times> nat \<times> nat \<times> nat" where
  "balance_weights edges w h =
     (let centerX = w div 2; centerY = h div 2
      in fold (\<lambda>y acc.
                 fold (\<lambda>x (leftWeight, rightWeight, topWeight, bottomWeight).
                         if is_edge edges (y * w + x)
                         then (if x < centerX then leftWeight + 1 else leftWeight,
                               if x < centerX then rightWeight else rightWeight + 1,
                               if y < centerY then topWeight + 1 else topWeight,
                               if y < centerY then bottomWeight else bottomWeight + 1)
                         else (leftWeight, rightWeight, topWeight, bottomWeight))
                      [0..<w] acc)
              [0..<h] (0, 0, 0, 0))"

definition calculateVisualBalance :: "nat list \<Rightarrow> nat \<Rightarrow> nat \<Rightarrow> jsnum" where
  "calculateVisualBalance edges w h =
     (case balance_weights edges w h of
        (leftWeight, rightWeight, topWeight, bottomWeight) \<Rightarrow>
          let horizontalBalance =
                js_div (Fin (real (min leftWeight rightWeight))) (Fin (real (max leftWeight rightWeight)));
              verticalBalance =
                js_div (Fin (real (min topWeight bottomWeight))) (Fin (real (max topWeight bottomWeight)));
              balanceScore = js_add (js_mul horizontalBalance (Fin 0.5)) (js_mul verticalBalance (Fin 0.5))
          in balanceScore)"

definition analyzeComposition :: "ImageData \<Rightarrow> jsnum" where
  "analyzeComposition img =
     (let w = width img; h = height img;
          thirdX1 = w div 3;
          thirdX2 = (w * 2) div 3;
          thirdY1 = h div 3;
          thirdY2 = (h * 2) div 3;
          edges = findEdges img;
          ruleOfThirdsScore = calculateRuleOfThirdsScore edges w h thirdX1 thirdX2 thirdY1 thirdY2;
          balanceScore = calculateVisualBalance edges w h
      in js_add (js_mul ruleOfThirdsScore (Fin 0.6)) (js_mul balanceScore (Fin 0.4)))"

subsection \<open>analyzeContrast\<close>

text \<open>The two percentile loops: run through the bins in the given order, add up the
  counts, and stop at the first bin where the sum reaches the threshold; the default
  stays where no bin does.\<close>

fun find_percentile :: "nat list \<Rightarrow> real \<Rightarrow> nat list \<Rightarrow> nat \<Rightarrow> nat \<Rightarrow> nat" where
  "find_percentile histogram threshold [] acc dflt = dflt"
| "find_percentile histogram threshold (i # bins) acc dflt =
     (if threshold \<le> real (acc + histogram ! i) then i
      else find_percentile histogram threshold bins (acc + histogram ! i) dflt)"

definition analyzeContrast :: "ImageData \<Rightarrow> jsnum" where
  "analyzeContrast img =
     (let histogram = luma_histogram (data img);
          pixelCount = width img * height img;
          p5 = find_percentile histogram (real pixelCount * 0.05) [0..<256] 0 0;
          p95 = find_percentile histogram (real pixelCount * 0.05) (rev [0..<256]) 0 255;
          contrastRange = int p95 - int p5;
          contrastScore = js_min (Fin 1) (js_div (Fin (real_of_int contrastRange)) (Fin 200))
      in contrastScore)"

subsection \<open>generateScoreDistribution and analyzeAesthetics\<close>

definition generateScoreDistribution :: "jsnum \<Rightarrow> jsnum list" where
  "generateScoreDistribution mean =
     (let stdDev = Fin 1;
          distribution =
            map (\<lambda>i. let score = Fin (real (i + 1));
                         z = js_div (js_sub score mean) stdDev
                     in js_exp (js_mul (js_mul (Fin (- 0.5)) z) z))
                [0..<10];
          total = fold (\<lambda>v acc. js_add acc v) distribution (Fin 0)
      in map (\<lambda>v. js_div v total) distribution)"

record AestheticResult =
  meanScore :: jsnum
  scoreDistribution :: "jsnum list"

definition analyzeAesthetics :: "ImageData \<Rightarrow> AestheticResult" where
  "analyzeAesthetics imageData =
     (let colorScore = analyzeColorHarmony imageData;
          compositionScore = analyzeComposition imageData;
          contrastScore = analyzeContrast imageData;
          mean = js_add (js_mul (js_add (js_add (js_mul colorScore (Fin 0.4))
                                                (js_mul compositionScore (Fin 0.4)))
                                        (js_mul contrastScore (Fin 0.2)))
                                (Fin 9))
                        (Fin 1)
      in \<lparr>meanScore = mean, scoreDistribution = generateScoreDistribution mean\<rparr>)"

section \<open>Face expressions and the fused score\<close>

record Expression =
  happy :: jsnum
  sad :: jsnum
  angry :: jsnum
  fearful :: jsnum
  disgusted :: jsnum
  surprised :: jsnum
  neutral :: jsnum

record FaceExpressionResult =
  faceCount :: nat
  expressions :: "Expression list"
  bestExpressionScore :: jsnum

text \<open>The detector is the library's; its answer is the argument: the expressions of the
  detected faces, or \<open>None\<close> where the detection throws (the function catches that).\<close>

definition expression_total :: "Expression \<Rightarrow> jsnum" where
  "expression_total expression =
     (let happyScore = js_mul (happy expression) (Fin 1.0);
          neutralScore = js_mul (neutral expression) (Fin 0.7);
          surprisedScore = js_mul (surprised expression) (Fin 0.5);
          negativeScore =
            js_mul (js_add (js_add (js_add (sad expression) (angry expression)) (fearful expression))
                           (disgusted expression))
                   (Fin 0.1)
      in js_sub (js_add (js_add happyScore neutralScore) surprisedScore) negativeScore)"

definition analyzeFaceExpressions :: "Expression list option \<Rightarrow> FaceExpressionResult" where
  "analyzeFaceExpressions detections =
     (case detections of
        None \<Rightarrow> \<lparr>faceCount = 0, expressions = [], bestExpressionScore = Fin 0\<rparr>
      | Some ds \<Rightarrow>
          if length ds = 0 then \<lparr>faceCount = 0, expressions = [], bestExpressionScore = Fin 0\<rparr>
          else let best = fold (\<lambda>expression best. js_max best (expression_total expression)) ds (Fin 0)
               in \<lparr>faceCount = length ds, expressions = ds,
                   bestExpressionScore = js_min (Fin 1) (js_max (Fin 0) best)\<rparr>)"

definition calculateOverallScore ::
  "TechnicalQualityResult \<Rightarrow> AestheticResult \<Rightarrow> FaceExpressionResult \<Rightarrow> jsnum" where
  "calculateOverallScore technicalQuality aesthetics faceExpressions =
     (let technicalScore = js_mul (technicalOverallScore technicalQuality) (Fin 0.4);
          aestheticScore = js_mul (js_div (meanScore aesthetics) (Fin 10)) (Fin 0.4);
          faceScore = (if 0 < faceCount faceExpressions
                       then js_mul (bestExpressionScore faceExpressions) (Fin 0.2)
                       else Fin 0);
          totalScore = (if 0 < faceCount faceExpressions
                        then js_add (js_add technicalScore aestheticScore) faceScore
                        else js_add (js_mul technicalScore (Fin 0.5)) (js_mul aestheticScore (Fin 0.5)))
      in totalScore)"

text \<open>The fusion as section 4.5 of the specification writes it, on finite scores.\<close>

definition fusion_spec :: "real \<Rightarrow> real \<Rightarrow> real \<Rightarrow> nat \<Rightarrow> real" where
  "fusion_spec t a f faces =
     (if 0 < faces then t * 0.4 + (a / 10) * 0.4 + f * 0.2
      else (t * 0.4) * 0.5 + ((a / 10) * 0.4) * 0.5)"

section \<open>The batch\<close>

text \<open>A photo of the batch (its field \<^verbatim>\<open>id\<close> is \<open>photo_id\<close> here) and a result.\<close>

record Photo =
  photo_id :: string
  baseUrl :: string

record AnalysisResult =
  photoId :: string
  technicalQuality :: TechnicalQualityResult
  aesthetics :: AestheticResult
  faceExpressions :: FaceExpressionResult
  overallScore :: jsnum

text \<open>What \<^verbatim>\<open>startAnalysis\<close> does to the outside, in order: the state setters of the
  component, the error log of the \<^verbatim>\<open>catch\<close> and the final callback.\<close>

datatype event =
    SetIsAnalyzing bool
  | SetProgress jsnum
  | SetResults "AnalysisResult list"
  | ConsoleError nat
  | OnAnalysisComplete "AnalysisResult list"

text \<open>The body of the \<^verbatim>\<open>try\<close> for one photo, up to the result that is pushed. The two
  collaborators are arguments: \<open>loadImage\<close> stands for loading the image of a URL and
  reading its raster back from the canvas (\<open>None\<close> where that fails, which the \<^verbatim>\<open>catch\<close>
  of the loop receives), \<open>detectFaces\<close> for the face detector.\<close>

definition image_url :: "Photo \<Rightarrow> string" where
  "image_url photo = baseUrl photo @ ''=w1024-h1024''"

definition analyze_photo ::
  "(string \<Rightarrow> ImageData option) \<Rightarrow> (ImageData \<Rightarrow> Expression list option) \<Rightarrow> Photo
     \<Rightarrow> AnalysisResult option" where
  "analyze_photo loadImage detectFaces photo =
     (case loadImage (image_url photo) of
        None \<Rightarrow> None
      | Some img \<Rightarrow>
          let tq = analyzeTechnicalQuality img;
              ae = analyzeAesthetics img;
              fe = analyzeFaceExpressions (detectFaces img)
          in Some \<lparr>photoId = photo_id photo, technicalQuality = tq, aesthetics = ae,
                   faceExpressions = fe, overallScore = calculateOverallScore tq ae fe\<rparr>)"

text \<open>\<^verbatim>\<open>Math.round(((i + 1) / photos.length) * 100)\<close>: the quotient and the product are
  rounded to doubles before \<^verbatim>\<open>Math.round\<close>, so that \<open>(23 / 40) * 100\<close> is a double below
  57.5 and the progress 57.\<close>

definition progress_value :: "nat \<Rightarrow> nat \<Rightarrow> jsnum" where
  "progress_value i n =
     js_round (js_mul64 (js_div64 (Fin (real (i + 1))) (Fin (real n))) (Fin 100))"

definition analysis_step ::
  "(string \<Rightarrow> ImageData option) \<Rightarrow> (ImageData \<Rightarrow> Expression list option) \<Rightarrow> Photo list \<Rightarrow> nat
     \<Rightarrow> AnalysisResult list \<times> event list \<Rightarrow> AnalysisResult list \<times> event list" where
  "analysis_step loadImage detectFaces photos i st =
     (case st of (analysisResults, events) \<Rightarrow>
        (case analyze_photo loadImage detectFaces (photos ! i) of
           Some r \<Rightarrow> (analysisResults @ [r], events @ [SetProgress (progress_value i (length photos))])
         | None \<Rightarrow> (analysisResults, events @ [ConsoleError i])))"

definition analysis_loop ::
  "(string \<Rightarrow> ImageData option) \<Rightarrow> (ImageData \<Rightarrow> Expression list option) \<Rightarrow> Photo list
     \<Rightarrow> AnalysisResult list \<times> event list" where
  "analysis_loop loadImage detectFaces photos =
     fold (analysis_step loadImage detectFaces photos) [0..<length photos] ([], [])"

definition by_score_descending :: "AnalysisResult \<Rightarrow> AnalysisResult \<Rightarrow> jsnum" where
  "by_score_descending a b = js_sub (overallScore b) (overallScore a)"

definition startAnalysis ::
  "bool \<Rightarrow> bool \<Rightarrow> (string \<Rightarrow> ImageData option) \<Rightarrow> (ImageData \<Rightarrow> Expression list option)
     \<Rightarrow> Photo list \<Rightarrow> event list" where
  "startAnalysis modelsLoaded canvasPresent loadImage detectFaces photos =
     (if \<not> modelsLoaded \<or> length photos = 0 \<or> \<not> canvasPresent then []
      else (case analysis_loop loadImage detectFaces photos of
              (analysisResults, events) \<Rightarrow>
                let sorted_results = js_sort by_score_descending analysisResults
                in [SetIsAnalyzing True, SetProgress (Fin 0), SetResults []] @ events @
                   [SetResults sorted_results, SetIsAnalyzing False,
                    OnAnalysisComplete sorted_results]))"

text \<open>The lists handed to the final callback, and the values that the progress was set
  to, both in the order of the events.\<close>

definition delivered :: "event list \<Rightarrow> AnalysisResult list list" where
  "delivered events = concat (map (\<lambda>e. case e of OnAnalysisComplete rs \<Rightarrow> [rs] | _ \<Rightarrow> []) events)"

definition progress_updates :: "event list \<Rightarrow> jsnum list" where
  "progress_updates events = concat (map (\<lambda>e. case e of SetProgress v \<Rightarrow> [v] | _ \<Rightarrow> []) events)"

text \<open>The images of the examples: \<open>w\<close> by \<open>h\<close> pixels, all of them the pixel \<open>px\<close>.\<close>

definition flat_image :: "nat \<Rightarrow> nat \<Rightarrow> 8 word list \<Rightarrow> ImageData" where
  "flat_image w h px = \<lparr>width = w, height = h, data = concat (replicate (w * h) px)\<rparr>"

definition gray_pixel :: "8 word list" where
  "gray_pixel = [128, 128, 128, 255]"





text \<open>The noise analysis as section 4.2 of the specification words it: the blocks are
  the non-overlapping 8 by 8 blocks that partition the image, every full block a
  candidate; the rest is that of \<^verbatim>\<open>detectNoise\<close>.\<close>

definition spec_blocks :: "nat \<Rightarrow> nat \<Rightarrow> nat \<Rightarrow> (nat \<times> nat) list" where
  "spec_blocks w h blockSize =
     concat (map (\<lambda>j. map (\<lambda>i. (i * blockSize, j * blockSize)) [0..<w div blockSize])
                 [0..<h div blockSize])"

definition spec_detectNoise :: "ImageData \<Rightarrow> jsnum" where
  "spec_detectNoise img =
     (case noise_sums img (spec_blocks (width img) (height img) 8) of
        (totalNoise, uniformBlocks) \<Rightarrow> noise_score totalNoise uniformBlocks)"

text \<open>The key of the gray pixel in \<^verbatim>\<open>colorMap\<close>, and the finite value of a score (0 for
  the others), for the statements below.\<close>

definition gray_key :: colorKey where
  "gray_key = (Fin 128, Fin 128, Fin 128)"

definition fin_score :: "AnalysisResult \<Rightarrow> real" where
  "fin_score r = (case overallScore r of Fin v \<Rightarrow> v | _ \<Rightarrow> 0)"

text \<open>Two photos, a loader that fails for the second one, a loader that answers every
  URL with the flat gray image of 64 by 64 pixels, and a detector that finds no face.\<close>

definition example_photos :: "Photo list" where
  "example_photos =
     [\<lparr>photo_id = ''p1'', baseUrl = ''https://photos.example/p1''\<rparr>,
      \<lparr>photo_id = ''p2'', baseUrl = ''https://photos.example/p2''\<rparr>]"

definition second_fails :: "string \<Rightarrow> ImageData option" where
  "second_fails url =
     (if url = ''https://photos.example/p2=w1024-h1024'' then None
      else Some (flat_image 64 64 gray_pixel))"

definition always_flat :: "string \<Rightarrow> ImageData option" where
  "always_flat url = Some (flat_image 64 64 gray_pixel)"

definition no_faces :: "ImageData \<Rightarrow> Expression list option" where
  "no_faces img = Some []"

section \<open>The fused score\<close>

lemma calculateOverallScore_finite:
  assumes "technicalOverallScore T = Fin t" "meanScore A = Fin a" "bestExpressionScore F = Fin f"
  shows "calculateOverallScore T A F = Fin (fusion_spec t a f (faceCount F))"
  using assms by (simp add: calculateOverallScore_def fusion_spec_def Let_def)

lemma no_face_effective_weights:
  assumes "technicalOverallScore T = Fin t" "meanScore A = Fin a" "faceCount F = 0"
  shows "calculateOverallScore T A F = Fin (0.2 * t + 0.02 * a)"
  using assms by (simp add: calculateOverallScore_def Let_def)



section \<open>Rounding to doubles\<close>

lemma pow2_powr: "pow2 e = 2 powr real_of_int e"
  by (simp add: pow2_def powr_real_of_int inverse_eq_divide)

lemma floor_log2_binade:
  assumes "pow2 e \<le> x" "x < pow2 (e + 1)"
  shows "\<lfloor>log 2 x\<rfloor> = e"
proof -
  have "0 < pow2 e" by (simp add: pow2_def)
  with assms(1) have "0 < x" by linarith
  then show ?thesis
    using assms by (simp add: floor_log_eq_powr_iff pow2_powr)
qed

text \<open>The double nearest to a real of the binade \<open>[2^e, 2^(e+1))\<close>.\<close>

lemma binary64_binade:
  assumes "pow2 e \<le> \<bar>x\<bar>" "\<bar>x\<bar> < pow2 (e + 1)" "- 1022 \<le> e"
    and "of_int (round_ties_even (\<bar>x\<bar> / pow2 (e - 52))) * pow2 (e - 52) < pow2 1024"
  shows "binary64 x =
           Fin (if 0 < x then of_int (round_ties_even (\<bar>x\<bar> / pow2 (e - 52))) * pow2 (e - 52)
                else - (of_int (round_ties_even (\<bar>x\<bar> / pow2 (e - 52))) * pow2 (e - 52)))"
proof -
  have "0 < pow2 e" by (simp add: pow2_def)
  with assms(1) have "x \<noteq> 0" by auto
  moreover have "max \<lfloor>log 2 \<bar>x\<bar>\<rfloor> (- 1022) = e"
    using floor_log2_binade [OF assms(1,2)] assms(3) by simp
  ultimately show ?thesis using assms(4) by (simp add: binary64_def Let_def)
qed

lemma js_add64_Fin: "js_add64 (Fin a) (Fin b) = binary64 (a + b)"
  by (simp add: js_add64_def rounded_def)

lemma js_sub64_Fin: "js_sub64 (Fin a) (Fin b) = binary64 (a - b)"
  by (simp add: js_sub64_def rounded_def js_sub_def)

lemma js_mul64_Fin: "js_mul64 (Fin a) (Fin b) = binary64 (a * b)"
  by (simp add: js_mul64_def rounded_def)

lemma js_div64_Fin:
  "js_div64 (Fin a) (Fin b) =
     (if b = 0 then (if a = 0 then NaN else if 0 < a then PInf else NInf) else binary64 (a / b))"
  by (simp add: js_div64_def rounded_def)

lemma lit_0299: "js_lit 0.299 = Fin (5386305154335113 / 2 ^ 54)"
  unfolding js_lit_def by (subst binary64_binade [where e = "- 2"]) (simp_all add: pow2_def round_ties_even_def)

lemma lit_0587: "js_lit 0.587 = Fin (2643612981266481 / 2 ^ 52)"
  unfolding js_lit_def by (subst binary64_binade [where e = "- 1"]) (simp_all add: pow2_def round_ties_even_def)

lemma lit_0114: "js_lit 0.114 = Fin (8214565720323785 / 2 ^ 56)"
  unfolding js_lit_def by (subst binary64_binade [where e = "- 4"]) (simp_all add: pow2_def round_ties_even_def)

lemma luma_gray_r: "js_mul64 (Fin (5386305154335113 / 2 ^ 54)) (Fin (128)) = Fin (5386305154335113 / 2 ^ 47)"
  unfolding js_mul64_Fin by (subst binary64_binade [where e = "5"]) (simp_all add: pow2_def round_ties_even_def)

lemma luma_gray_g: "js_mul64 (Fin (2643612981266481 / 2 ^ 52)) (Fin (128)) = Fin (2643612981266481 / 2 ^ 45)"
  unfolding js_mul64_Fin by (subst binary64_binade [where e = "6"]) (simp_all add: pow2_def round_ties_even_def)

lemma luma_gray_rg: "js_add64 (Fin (5386305154335113 / 2 ^ 47)) (Fin (2643612981266481 / 2 ^ 45)) = Fin (3990189269850259 / 2 ^ 45)"
  unfolding js_add64_Fin by (subst binary64_binade [where e = "6"]) (simp_all add: pow2_def round_ties_even_def)

lemma luma_gray_b: "js_mul64 (Fin (8214565720323785 / 2 ^ 56)) (Fin (128)) = Fin (8214565720323785 / 2 ^ 49)"
  unfolding js_mul64_Fin by (subst binary64_binade [where e = "3"]) (simp_all add: pow2_def round_ties_even_def)

lemma luma_gray_rgb: "js_add64 (Fin (3990189269850259 / 2 ^ 45)) (Fin (8214565720323785 / 2 ^ 49)) = Fin (9007199254740991 / 2 ^ 46)"
  unfolding js_add64_Fin by (subst binary64_binade [where e = "6"]) (simp_all add: pow2_def round_ties_even_def)

lemma luma_green_r: "js_mul64 (Fin (5386305154335113 / 2 ^ 54)) (Fin (0)) = Fin 0"
  by (simp add: js_mul64_Fin binary64_def)

lemma luma_green_g: "js_mul64 (Fin (2643612981266481 / 2 ^ 52)) (Fin (204)) = Fin (2106629094446727 / 2 ^ 44)"
  unfolding js_mul64_Fin by (subst binary64_binade [where e = "6"]) (simp_all add: pow2_def round_ties_even_def)

lemma luma_green_rg: "js_add64 (Fin (0)) (Fin (2106629094446727 / 2 ^ 44)) = Fin (2106629094446727 / 2 ^ 44)"
  unfolding js_add64_Fin by (subst binary64_binade [where e = "6"]) (simp_all add: pow2_def round_ties_even_def)

lemma luma_green_b: "js_mul64 (Fin (8214565720323785 / 2 ^ 56)) (Fin (68)) = Fin (4363988038922011 / 2 ^ 49)"
  unfolding js_mul64_Fin by (subst binary64_binade [where e = "2"]) (simp_all add: pow2_def round_ties_even_def)

lemma luma_green_rgb: "js_add64 (Fin (2106629094446727 / 2 ^ 44)) (Fin (4363988038922011 / 2 ^ 49)) = Fin (8972014882652159 / 2 ^ 46)"
  unfolding js_add64_Fin by (subst binary64_binade [where e = "6"]) (simp_all add: pow2_def round_ties_even_def)

lemma luma_gray: "luma (Fin 128) (Fin 128) (Fin 128) = Fin 128"
  unfolding luma_def lit_0299 lit_0587 lit_0114 luma_gray_r luma_gray_g luma_gray_rg luma_gray_b luma_gray_rgb by simp

text \<open>Where the real sum is \<open>127.5\<close> and its double lies below it, the luma is 127, as the
  code computes it.\<close>

lemma luma_rounds_the_double: "luma (Fin 0) (Fin 204) (Fin 68) = Fin 127"
  unfolding luma_def lit_0299 lit_0587 lit_0114 luma_green_r luma_green_g luma_green_rg luma_green_b luma_green_rgb by simp

lemma hsv_r: "js_div64 (Fin (33)) (Fin (255)) = Fin (4662550202454161 / 2 ^ 55)"
  unfolding js_div64_Fin by (subst binary64_binade [where e = "- 3"]) (simp_all add: pow2_def round_ties_even_def)

lemma hsv_g: "js_div64 (Fin (18)) (Fin (255)) = Fin (2543209201338633 / 2 ^ 55)"
  unfolding js_div64_Fin by (subst binary64_binade [where e = "- 4"]) (simp_all add: pow2_def round_ties_even_def)

lemma hsv_b: "js_div64 (Fin (3)) (Fin (255)) = Fin (847736400446211 / 2 ^ 56)"
  unfolding js_div64_Fin by (subst binary64_binade [where e = "- 7"]) (simp_all add: pow2_def round_ties_even_def)

lemma hsv_diff: "js_sub64 (Fin (4662550202454161 / 2 ^ 55)) (Fin (847736400446211 / 2 ^ 56)) = Fin (8477364004462111 / 2 ^ 56)"
  unfolding js_sub64_Fin by (subst binary64_binade [where e = "- 4"]) (simp_all add: pow2_def round_ties_even_def)

lemma hsv_gb: "js_sub64 (Fin (2543209201338633 / 2 ^ 55)) (Fin (847736400446211 / 2 ^ 56)) = Fin (4238682002231055 / 2 ^ 56)"
  unfolding js_sub64_Fin by (subst binary64_binade [where e = "- 5"]) (simp_all add: pow2_def round_ties_even_def)

lemma hsv_q: "js_div64 (Fin (4238682002231055 / 2 ^ 56)) (Fin (8477364004462111 / 2 ^ 56)) = Fin (9007199254740991 / 2 ^ 54)"
  unfolding js_div64_Fin by (subst binary64_binade [where e = "- 2"]) (simp_all add: pow2_def round_ties_even_def)

lemma hsv_h: "js_mul64 (Fin (60)) (Fin (9007199254740991 / 2 ^ 54)) = Fin (8444249301319679 / 2 ^ 48)"
  unfolding js_mul64_Fin by (subst binary64_binade [where e = "4"]) (simp_all add: pow2_def round_ties_even_def)

lemma hsv_s: "js_div64 (Fin (8477364004462111 / 2 ^ 56)) (Fin (4662550202454161 / 2 ^ 55)) = Fin (8188362958855447 / 2 ^ 53)"
  unfolding js_div64_Fin by (subst binary64_binade [where e = "- 1"]) (simp_all add: pow2_def round_ties_even_def)

text \<open>The hue of the pixel \<open>(33, 18, 3)\<close> is the double below 30, where the real one is
  30.\<close>

lemma rgbToHsv_rounds:
  "rgbToHsv (Fin 33) (Fin 18) (Fin 3) = (Fin (8444249301319679 / 2 ^ 48), Fin (8188362958855447 / 2 ^ 53), Fin (4662550202454161 / 2 ^ 55))"
proof -
  have mx: "js_max (js_max (Fin (4662550202454161 / 2 ^ 55)) (Fin (2543209201338633 / 2 ^ 55))) (Fin (847736400446211 / 2 ^ 56)) = Fin (4662550202454161 / 2 ^ 55)"
    by (simp add: js_max_def)
  have mn: "js_min (js_min (Fin (4662550202454161 / 2 ^ 55)) (Fin (2543209201338633 / 2 ^ 55))) (Fin (847736400446211 / 2 ^ 56)) = Fin (847736400446211 / 2 ^ 56)"
    by (simp add: js_min_def)
  have e1: "js_eq (Fin (8477364004462111 / 2 ^ 56)) (Fin 0) = False" by (simp add: js_eq_def)
  have e2: "js_eq (Fin (4662550202454161 / 2 ^ 55)) (Fin (4662550202454161 / 2 ^ 55)) = True" by (simp add: js_eq_def)
  have e3: "js_eq (Fin (4662550202454161 / 2 ^ 55)) (Fin 0) = False" by (simp add: js_eq_def)
  have rm: "js_rem (Fin (9007199254740991 / 2 ^ 54)) (Fin 6) = Fin (9007199254740991 / 2 ^ 54)" by simp
  have lt: "js_lt (Fin (8444249301319679 / 2 ^ 48)) (Fin 0) = False" by simp
  show ?thesis
    by (simp only: rgbToHsv_def Let_def hsv_r hsv_g hsv_b mx mn hsv_diff e1 e2 e3 hsv_gb hsv_q rm
                   hsv_h lt hsv_s if_True if_False)
qed

section \<open>Flat images\<close>

lemma concat_replicate_nth:
  "k < n \<Longrightarrow> j < length xs \<Longrightarrow> concat (replicate n xs) ! (length xs * k + j) = xs ! j"
proof (induction n arbitrary: k)
  case 0
  then show ?case by simp
next
  case (Suc n)
  show ?case
  proof (cases k)
    case 0
    with Suc.prems show ?thesis by (simp add: nth_append)
  next
    case (Suc k')
    with Suc.prems have "k' < n" by simp
    from Suc.IH [OF this Suc.prems(2)] Suc show ?thesis
      by (simp add: nth_append add.assoc)
  qed
qed

lemma length_concat_replicate: "length (concat (replicate n xs)) = n * length xs"
  by (induction n) simp_all

lemma flat_data_length: "length (data (flat_image w h gray_pixel)) = 4 * (w * h)"
  by (simp add: flat_image_def gray_pixel_def length_concat_replicate)

lemma flat_wf: "wf_ImageData (flat_image w h gray_pixel)"
  by (simp add: wf_ImageData_def flat_data_length) (simp add: flat_image_def)

lemma gray_pixel_length: "length gray_pixel = 4"
  by (simp add: gray_pixel_def)

lemma gray_pixel_nth: "j < 3 \<Longrightarrow> gray_pixel ! j = 128"
  by (cases j; simp add: gray_pixel_def nth_Cons split: nat.splits)

lemma flat_chan:
  assumes "k < w * h" "j < 3"
  shows "chan (data (flat_image w h gray_pixel)) (4 * k + j) = Fin 128"
proof -
  have "j < length gray_pixel" using assms(2) by (simp add: gray_pixel_length)
  from concat_replicate_nth [OF assms(1) this]
  have "concat (replicate (w * h) gray_pixel) ! (4 * k + j) = 128"
    by (simp only: gray_pixel_length gray_pixel_nth [OF assms(2)])
  moreover have "4 * k + j < 4 * (w * h)" using assms by simp
  ultimately show ?thesis
    using flat_data_length [of w h] by (simp add: chan_def flat_image_def)
qed

lemma flat_luma_at:
  assumes "k < w * h"
  shows "luma_at (data (flat_image w h gray_pixel)) (4 * k) = Fin 128"
  using flat_chan [OF assms, of 0] flat_chan [OF assms, of 1] flat_chan [OF assms, of 2]
  by (simp add: luma_at_def luma_gray)

lemma to_uint8_128: "to_uint8 (Fin 128) = 128"
  by (simp add: to_uint8_def)

lemma flat_grayscale: "grayscale (flat_image w h gray_pixel) = replicate (w * h) 128"
proof -
  have "map (\<lambda>k. if 4 * k < length (data (flat_image w h gray_pixel))
                 then to_uint8 (luma_at (data (flat_image w h gray_pixel)) (4 * k)) else 0)
            [0..<w * h] = map (\<lambda>k. 128) [0..<w * h]"
    by (rule map_cong) (simp_all add: flat_luma_at to_uint8_128 flat_data_length)
  then show ?thesis
    by (simp add: grayscale_def map_replicate_const) (simp add: flat_image_def)
qed

subsection \<open>detectBlur\<close>

lemma replicate_update_same: "(replicate n c)[i := c] = replicate n c"
  by (cases "i < n") (simp_all add: list_eq_iff_nth_eq nth_list_update)

lemma fold_update_const:
  "(\<And>x. x \<in> set xs \<Longrightarrow> v x = c) \<Longrightarrow>
     fold (\<lambda>x l. l[f x := v x]) xs (replicate n c) = replicate n c"
  by (induction xs) (simp_all add: replicate_update_same)

lemma length_fold_update: "length (fold (\<lambda>x l. l[f x := v x]) xs l0) = length l0"
  by (induction xs arbitrary: l0) simp_all

lemma length_fold_rows:
  "length (fold (\<lambda>y l. fold (\<lambda>x l. l[f y x := v y x]) (xs y) l) ys l0) = length l0"
  by (induction ys arbitrary: l0) (simp_all add: length_fold_update)

lemma length_grayscale: "length (grayscale img) = width img * height img"
  by (simp add: grayscale_def)

lemma length_laplacian: "length (laplacian gray w h) = length gray"
  by (simp add: laplacian_def length_fold_rows)

lemma interior_index:
  fixes x y w h :: nat
  assumes "1 \<le> y" "y < h - 1" "1 \<le> x" "x < w - 1"
  shows "w + 1 \<le> y * w + x" and "y * w + x + w + 1 < w * h"
proof -
  have "1 * w \<le> y * w" using assms(1) by (rule mult_le_mono1)
  then have "w \<le> y * w" by (simp only: mult_1)
  with assms(3) show "w + 1 \<le> y * w + x" by linarith
  have "y + 2 \<le> h" using assms(2) by linarith
  then have "(y + 2) * w \<le> h * w" by (rule mult_le_mono1)
  moreover have "(y + 2) * w = y * w + 2 * w" by (rule distrib_right)
  moreover have "h * w = w * h" by (rule mult.commute)
  ultimately have "y * w + 2 * w \<le> w * h" by linarith
  with assms(4) show "y * w + x + w + 1 < w * h" by linarith
qed

text \<open>Every read of the Laplacian loop is inside the grayscale buffer.\<close>

lemma laplacian_reads_in_range:
  assumes "1 \<le> y" "y < height img - 1" "1 \<le> x" "x < width img - 1"
  shows "width img + 1 \<le> y * width img + x"
    and "y * width img + x + width img + 1 < length (grayscale img)"
  using interior_index [OF assms] by (simp_all add: length_grayscale)

lemma laplace_at_replicate:
  assumes "w + 1 \<le> idx" "idx + w + 1 < n"
  shows "laplace_at (replicate n g) w idx = 0"
  using assms by (simp add: laplace_at_def)

lemma fold_rows_const:
  "(\<And>y x. y \<in> set ys \<Longrightarrow> x \<in> set xs \<Longrightarrow> v y x = c) \<Longrightarrow>
     fold (\<lambda>y l. fold (\<lambda>x l. l[f y x := v y x]) xs l) ys (replicate n c) = replicate n c"
  by (induction ys) (simp_all add: fold_update_const)

lemma laplacian_replicate: "laplacian (replicate (w * h) g) w h = replicate (w * h) 0"
  unfolding laplacian_def length_replicate
proof (rule fold_rows_const)
  fix y x assume "y \<in> set [1..<h - 1]" "x \<in> set [1..<w - 1]"
  then have "1 \<le> y" "y < h - 1" "1 \<le> x" "x < w - 1" by simp_all
  from interior_index [OF this]
  have "laplace_at (replicate (w * h) g) w (y * w + x) = 0"
    by (intro laplace_at_replicate) simp_all
  then show "to_int16 (laplace_at (replicate (w * h) g) w (y * w + x)) = 0"
    by (simp add: to_int16_def)
qed

lemma sum_list_zero: "(\<And>x. x \<in> set xs \<Longrightarrow> f x = (0::int)) \<Longrightarrow> sum_list (map f xs) = 0"
  by (induction xs) simp_all

lemma blur_fold:
  "fold (\<lambda>i (s, sq, c). if P i then (s, sq, c) else (s + f i, sq + f i * f i, c + 1)) xs (s0, sq0, c0) =
     (s0 + sum_list (map f (filter (\<lambda>i. \<not> P i) xs)),
      sq0 + sum_list (map (\<lambda>i. f i * f i) (filter (\<lambda>i. \<not> P i) xs)),
      c0 + length (filter (\<lambda>i. \<not> P i) xs))"
  for f :: "nat \<Rightarrow> int" and c0 :: nat
  by (induction xs arbitrary: s0 sq0 c0) simp_all

lemma blur_sums_eq:
  "blur_sums lap w h =
     (sum_list (map (\<lambda>i. lap ! i) (filter (\<lambda>i. \<not> border w h i) [0..<length lap])),
      sum_list (map (\<lambda>i. lap ! i * lap ! i) (filter (\<lambda>i. \<not> border w h i) [0..<length lap])),
      length (filter (\<lambda>i. \<not> border w h i) [0..<length lap]))"
  unfolding blur_sums_def by (simp add: blur_fold)

lemma all_border_small:
  fixes w h i :: nat
  assumes "w < 3 \<or> h < 3" "i < w * h"
  shows "border w h i"
proof -
  have w0: "0 < w" using assms(2) by (cases w) simp_all
  have h0: "0 < h" using assms(2) by (cases h) simp_all
  from assms(1) show ?thesis
  proof
    assume "w < 3"
    with w0 consider "w = 1" | "w = 2" by linarith
    then show ?thesis
    proof cases
      case 1
      then show ?thesis by (simp add: border_def)
    next
      case 2
      have "i mod 2 = 0 \<or> i mod 2 = 2 - 1" by presburger
      then have "i mod w = 0 \<or> i mod w = w - 1" unfolding 2 .
      then show ?thesis unfolding border_def by blast
    qed
  next
    assume "h < 3"
    with h0 consider "h = 1" | "h = 2" by linarith
    then show ?thesis
    proof cases
      case 1
      with assms(2) have "i < w" by simp
      then show ?thesis by (simp add: border_def)
    next
      case 2
      have "i < w \<or> w \<le> i" by linarith
      with 2 show ?thesis by (simp add: border_def)
    qed
  qed
qed

lemma blur_sums_small:
  assumes "w < 3 \<or> h < 3" "length lap = w * h"
  shows "blur_sums lap w h = (0, 0, 0)"
proof -
  have "filter (\<lambda>i. \<not> border w h i) [0..<length lap] = []"
    using all_border_small [OF assms(1)] assms(2) by (simp add: filter_empty_conv)
  then show ?thesis by (simp add: blur_sums_eq)
qed

text \<open>An image less than three pixels wide or high has no interior pixel: the count of
  the variance loop is 0, mean and variance are \<open>0 / 0\<close>, and the clamp keeps the
  \<^verbatim>\<open>NaN\<close>.\<close>

lemma detectBlur_small:
  assumes "width img < 3 \<or> height img < 3"
  shows "detectBlur img = NaN"
proof -
  have "blur_sums (laplacian (grayscale img) (width img) (height img)) (width img) (height img) = (0, 0, 0)"
    using assms by (intro blur_sums_small) (simp_all add: length_laplacian length_grayscale)
  then show ?thesis
    by (simp add: detectBlur_def Let_def js_sub_def js_min_def js_max_def)
qed

lemma ne_set_nonempty: "x \<in> set xs \<Longrightarrow> xs \<noteq> []"
  by (cases xs) simp_all

lemma interior_exists:
  fixes w h :: nat
  assumes "3 \<le> w" "3 \<le> h"
  shows "0 < length (filter (\<lambda>i. \<not> border w h i) [0..<w * h])"
proof -
  have "2 \<le> h - 1" using assms(2) by linarith
  then have "2 * w \<le> (h - 1) * w" by (rule mult_le_mono1)
  with assms(1) have a: "w + 1 < (h - 1) * w" by linarith
  have "h - 1 \<le> h" by simp
  then have "(h - 1) * w \<le> h * w" by (rule mult_le_mono1)
  with a have "w + 1 < h * w" by linarith
  then have b: "w + 1 < w * h" by (simp only: mult.commute)
  have "(w + 1) mod w = 1 mod w" by (rule mod_add_self1)
  also have "\<dots> = 1" using assms(1) by simp
  finally have "(w + 1) mod w = 1" .
  then have "\<not> border w h (w + 1)" using assms(1) a by (simp add: border_def)
  with b have "w + 1 \<in> set (filter (\<lambda>i. \<not> border w h i) [0..<w * h])" by simp
  then have "filter (\<lambda>i. \<not> border w h i) [0..<w * h] \<noteq> []" by (rule ne_set_nonempty)
  then show ?thesis by simp
qed

lemma blur_sums_zero:
  "blur_sums (replicate n 0) w h = (0, 0, length (filter (\<lambda>i. \<not> border w h i) [0..<n]))"
proof -
  have "sum_list (map (\<lambda>i. replicate n (0::int) ! i) (filter (\<lambda>i. \<not> border w h i) [0..<n])) = 0"
    by (rule sum_list_zero) simp
  moreover have "sum_list (map (\<lambda>i. replicate n (0::int) ! i * replicate n 0 ! i)
                               (filter (\<lambda>i. \<not> border w h i) [0..<n])) = 0"
    by (rule sum_list_zero) simp
  ultimately show ?thesis by (simp add: blur_sums_eq)
qed

lemma detectBlur_flat:
  assumes "3 \<le> w" "3 \<le> h"
  shows "detectBlur (flat_image w h gray_pixel) = Fin 0"
proof -
  have wh: "width (flat_image w h gray_pixel) = w" "height (flat_image w h gray_pixel) = h"
    by (simp_all add: flat_image_def)
  define c where "c = length (filter (\<lambda>i. \<not> border w h i) [0..<w * h])"
  have c: "0 < c" unfolding c_def by (rule interior_exists [OF assms])
  have "blur_sums (replicate (w * h) 0) w h = (0, 0, c)"
    by (simp add: blur_sums_zero c_def)
  then show ?thesis
    using c by (simp add: detectBlur_def Let_def wh flat_grayscale laplacian_replicate
                          js_sub_def js_min_def js_max_def)
qed

subsection \<open>detectNoise\<close>

lemma stride_range_set:
  assumes "0 < s"
  shows "set (stride_range b s) = {v. v < b \<and> s dvd v}"
proof -
  have iff: "k < (b + s - 1) div s \<longleftrightarrow> k * s < b" for k
  proof -
    have "k < (b + s - 1) div s \<longleftrightarrow> Suc k \<le> (b + s - 1) div s" by (simp add: Suc_le_eq)
    also have "\<dots> \<longleftrightarrow> Suc k * s \<le> b + s - 1"
      using assms by (simp only: less_eq_div_iff_mult_less_eq)
    also have "\<dots> \<longleftrightarrow> k * s < b" using assms by (cases s) auto
    finally show ?thesis .
  qed
  show ?thesis
  proof (rule set_eqI)
    fix v
    show "v \<in> set (stride_range b s) \<longleftrightarrow> v \<in> {v. v < b \<and> s dvd v}"
    proof
      assume "v \<in> set (stride_range b s)"
      then obtain k where "k < (b + s - 1) div s" "v = k * s"
        by (auto simp: stride_range_def)
      then show "v \<in> {v. v < b \<and> s dvd v}" using iff [of k] by simp
    next
      assume "v \<in> {v. v < b \<and> s dvd v}"
      then obtain k where k: "v = k * s" "v < b" by (auto simp: dvd_def mult.commute)
      then have "k < (b + s - 1) div s" using iff [of k] by simp
      with k show "v \<in> set (stride_range b s)" by (auto simp: stride_range_def)
    qed
  qed
qed

text \<open>The blocks that \<^verbatim>\<open>detectNoise\<close> visits have their origin at multiples of 8 and
  end strictly before the last column and the last row.\<close>

lemma noise_blocks_set:
  "set (noise_blocks w h 8) = {(x, y). 8 dvd x \<and> 8 dvd y \<and> x + 8 < w \<and> y + 8 < h}"
proof -
  have "(x, y) \<in> set (noise_blocks w h 8) \<longleftrightarrow> 8 dvd x \<and> 8 dvd y \<and> x + 8 < w \<and> y + 8 < h"
    for x y
  proof -
    have "(x, y) \<in> set (noise_blocks w h 8) \<longleftrightarrow>
            y \<in> set (stride_range (h - 8) 8) \<and> x \<in> set (stride_range (w - 8) 8)"
      by (auto simp: noise_blocks_def)
    also have "\<dots> \<longleftrightarrow> (y < h - 8 \<and> 8 dvd y) \<and> (x < w - 8 \<and> 8 dvd x)"
      by (simp add: stride_range_set)
    also have "\<dots> \<longleftrightarrow> 8 dvd x \<and> 8 dvd y \<and> x + 8 < w \<and> y + 8 < h"
      by (auto simp: less_diff_conv)
    finally show ?thesis .
  qed
  then show ?thesis by auto
qed

lemma noise_blocks_small:
  assumes "w \<le> 8 \<or> h \<le> 8"
  shows "noise_blocks w h 8 = []"
proof -
  have "set (noise_blocks w h 8) = {}" using assms by (auto simp: noise_blocks_set)
  then show ?thesis by simp
qed

lemma detectNoise_no_blocks:
  assumes "noise_blocks (width img) (height img) 8 = []"
  shows "detectNoise img = Fin 0.5"
  using assms by (simp add: detectNoise_def noise_sums_def noise_score_def)

lemma flat_pixel_index:
  fixes x y i j w h :: nat
  assumes "x + i < w" "y + j < h"
  shows "(y + j) * w + (x + i) < w * h"
proof -
  have "y + j + 1 \<le> h" using assms(2) by linarith
  then have "(y + j + 1) * w \<le> h * w" by (rule mult_le_mono1)
  moreover have "(y + j + 1) * w = (y + j) * w + w" by (simp only: distrib_right mult_1)
  moreover have "h * w = w * h" by (rule mult.commute)
  ultimately show ?thesis using assms(1) by linarith
qed

lemma flat_block_pixelValues:
  assumes "x + 8 \<le> w" "y + 8 \<le> h"
  shows "block_pixelValues (flat_image w h gray_pixel) x y 8 = replicate 64 (Fin 128)"
proof -
  have px: "luma_at (data (flat_image w h gray_pixel)) (((y + j) * w + (x + i)) * 4) = Fin 128"
    if "i < 8" "j < 8" for i j
  proof -
    have "(y + j) * w + (x + i) < w * h"
      using assms that by (intro flat_pixel_index) simp_all
    from flat_luma_at [OF this] show ?thesis by (simp only: mult.commute)
  qed
  have row: "map (\<lambda>i. luma_at (data (flat_image w h gray_pixel)) (((y + j) * w + (x + i)) * 4)) [0..<8]
               = replicate 8 (Fin 128)" if "j < 8" for j
  proof -
    have "map (\<lambda>i. luma_at (data (flat_image w h gray_pixel)) (((y + j) * w + (x + i)) * 4)) [0..<8]
            = map (\<lambda>i. Fin 128) [0..<8]"
    proof (rule map_cong [OF refl])
      fix i :: nat assume "i \<in> set [0..<8]"
      then have "i < 8" by simp
      from px [OF this that]
      show "luma_at (data (flat_image w h gray_pixel)) (((y + j) * w + (x + i)) * 4) = Fin 128" .
    qed
    then show ?thesis by (simp add: map_replicate_const)
  qed
  have "map (\<lambda>j. map (\<lambda>i. luma_at (data (flat_image w h gray_pixel)) (((y + j) * w + (x + i)) * 4)) [0..<8]) [0..<8]
          = map (\<lambda>j. replicate 8 (Fin 128)) [0..<8]"
    by (rule map_cong [OF refl]) (simp only: row set_upt atLeastLessThan_iff)
  moreover have "width (flat_image w h gray_pixel) = w" by (simp add: flat_image_def)
  ultimately have "block_pixelValues (flat_image w h gray_pixel) x y 8
               = concat (map (\<lambda>j. replicate 8 (Fin 128)) [0..<8])"
    unfolding block_pixelValues_def by (simp only:)
  also have "\<dots> = replicate 64 (Fin 128)"
    by (simp add: upt_rec numeral_eq_Suc)
  finally show ?thesis .
qed

lemma fold_add_replicate:
  "fold (\<lambda>val acc. js_add acc (g val)) (replicate n v) (Fin a) = Fin (a + real n * c)"
  if "g v = Fin c"
  using that by (induction n arbitrary: a) (simp_all add: algebra_simps)

lemma block_diffs_inner:
  assumes "\<And>i. i \<in> set xs \<Longrightarrow> d i = Fin 0"
  shows "fold (\<lambda>i (diffSum, diffCount). (js_add diffSum (d i), diffCount + 1)) xs (Fin a, c)
           = (Fin a, c + length xs)"
  using assms by (induction xs arbitrary: c) simp_all

lemma block_diffs_outer:
  assumes "\<And>j i. j \<in> set ys \<Longrightarrow> i \<in> set xs \<Longrightarrow> d j i = Fin 0"
  shows "fold (\<lambda>j acc. fold (\<lambda>i (diffSum, diffCount). (js_add diffSum (d j i), diffCount + 1)) xs acc)
              ys (Fin a, c)
           = (Fin a, c + length ys * length xs)"
  using assms
proof (induction ys arbitrary: c)
  case Nil
  then show ?case by simp
next
  case (Cons j ys)
  have "fold (\<lambda>i (diffSum, diffCount). (js_add diffSum (d j i), diffCount + 1)) xs (Fin a, c)
          = (Fin a, c + length xs)"
    by (rule block_diffs_inner) (simp add: Cons.prems)
  moreover have "fold (\<lambda>j acc. fold (\<lambda>i (diffSum, diffCount). (js_add diffSum (d j i), diffCount + 1)) xs acc)
              ys (Fin a, c + length xs) = (Fin a, c + length xs + length ys * length xs)"
    by (rule Cons.IH) (simp add: Cons.prems)
  ultimately show ?case by simp
qed

lemma js_nth_replicate: "i < n \<Longrightarrow> js_nth (replicate n v) i = v"
  by (simp add: js_nth_def)

lemma block_diffs_flat: "block_diffs (replicate 64 (Fin g)) 8 = (Fin 0, 112)"
proof -
  have h: "fold (\<lambda>j acc. fold (\<lambda>i (diffSum, diffCount).
                   (js_add diffSum
                      (js_abs (js_sub (js_nth (replicate 64 (Fin g)) (j * 8 + i))
                                      (js_nth (replicate 64 (Fin g)) (j * 8 + i + 1)))),
                    diffCount + 1)) [0..<8 - 1] acc) [0..<8] (Fin 0, 0)
             = (Fin 0, 0 + length [0..<8::nat] * length [0..<8 - 1::nat])"
    by (rule block_diffs_outer) (simp add: js_nth_replicate js_sub_def)
  have v: "fold (\<lambda>i acc. fold (\<lambda>j (diffSum, diffCount).
                   (js_add diffSum
                      (js_abs (js_sub (js_nth (replicate 64 (Fin g)) (j * 8 + i))
                                      (js_nth (replicate 64 (Fin g)) ((j + 1) * 8 + i)))),
                    diffCount + 1)) [0..<8 - 1] acc) [0..<8] (Fin 0, 56)
             = (Fin 0, 56 + length [0..<8::nat] * length [0..<8 - 1::nat])"
    by (rule block_diffs_outer) (simp add: js_nth_replicate js_sub_def)
  show ?thesis
    unfolding block_diffs_def Let_def h using v by simp
qed

lemma calculateBlockVariance_flat:
  assumes "x + 8 \<le> w" "y + 8 \<le> h"
  shows "calculateBlockVariance (flat_image w h gray_pixel) x y 8
           = \<lparr>meanVariance = Fin 0, noiseLevel = Fin 0\<rparr>"
proof -
  have m: "fold (\<lambda>val acc. js_add acc val) (replicate 64 (Fin 128)) (Fin 0) = Fin (0 + real 64 * 128)"
    by (rule fold_add_replicate [where g = "\<lambda>v. v"]) simp
  have v: "fold (\<lambda>val acc. js_add acc (js_pow2 (js_sub val (Fin 128)))) (replicate 64 (Fin 128)) (Fin 0)
             = Fin (0 + real 64 * 0)"
    by (rule fold_add_replicate) (simp add: js_pow2_def js_sub_def)
  show ?thesis
    by (simp add: calculateBlockVariance_def Let_def flat_block_pixelValues [OF assms] m v
                  block_diffs_flat del: fold_replicate)
qed

lemma noise_sums_flat:
  assumes "\<And>x y. (x, y) \<in> set blocks \<Longrightarrow> x + 8 \<le> w \<and> y + 8 \<le> h"
  shows "noise_sums (flat_image w h gray_pixel) blocks = (Fin 0, length blocks)"
proof -
  have "fold (\<lambda>(x, y) (totalNoise, uniformBlocks).
             let blockVariance = calculateBlockVariance (flat_image w h gray_pixel) x y 8
             in if js_lt (meanVariance blockVariance) (Fin 100)
                then (js_add totalNoise (noiseLevel blockVariance), uniformBlocks + 1)
                else (totalNoise, uniformBlocks))
          blocks (Fin 0, c) = (Fin 0, c + length blocks)" for c
    using assms
  proof (induction blocks arbitrary: c)
    case Nil
    then show ?case by simp
  next
    case (Cons b blocks)
    obtain x y where b: "b = (x, y)" by (cases b)
    have "x + 8 \<le> w \<and> y + 8 \<le> h" by (rule Cons.prems) (simp add: b)
    then have "x + 8 \<le> w" "y + 8 \<le> h" by simp_all
    note bv = calculateBlockVariance_flat [OF this]
    have ih: "fold (\<lambda>(x, y) (totalNoise, uniformBlocks).
             let blockVariance = calculateBlockVariance (flat_image w h gray_pixel) x y 8
             in if js_lt (meanVariance blockVariance) (Fin 100)
                then (js_add totalNoise (noiseLevel blockVariance), uniformBlocks + 1)
                else (totalNoise, uniformBlocks))
          blocks (Fin 0, Suc c) = (Fin 0, Suc c + length blocks)"
      by (rule Cons.IH, rule Cons.prems) simp
    show ?case by (simp add: b bv ih)
  qed
  from this [of 0] show ?thesis by (simp add: noise_sums_def)
qed

lemma detectNoise_flat:
  "detectNoise (flat_image w h gray_pixel) = (if noise_blocks w h 8 = [] then Fin 0.5 else Fin 1)"
proof -
  have "noise_sums (flat_image w h gray_pixel) (noise_blocks w h 8) = (Fin 0, length (noise_blocks w h 8))"
    by (rule noise_sums_flat) (simp add: noise_blocks_set)
  then show ?thesis
    by (simp add: detectNoise_def flat_image_def noise_score_def js_sub_def js_min_def js_max_def)
qed

lemma noise_blocks_64: "noise_blocks 64 64 8 \<noteq> []"
proof -
  have "(0, 0) \<in> set (noise_blocks 64 64 8)" by (simp add: noise_blocks_set)
  then show ?thesis by (rule ne_set_nonempty)
qed

subsection \<open>analyzeExposure\<close>

lemma stride_range_4: "stride_range (4 * n) 4 = map (\<lambda>k. k * 4) [0..<n]"
proof -
  have "(4 * n + 4 - 1) div 4 = n" by simp
  then show ?thesis by (simp only: stride_range_def)
qed

lemma histogram_fold:
  assumes "\<And>k. k \<in> set xs \<Longrightarrow> F k = (\<lambda>hist. hist[g := hist ! g + 1])" "g < length h0"
  shows "fold F xs h0 = h0[g := h0 ! g + length xs]"
  using assms
proof (induction xs arbitrary: h0)
  case Nil
  then show ?case by simp
next
  case (Cons k xs)
  have step: "F k h0 = h0[g := h0 ! g + 1]" using Cons.prems(1) [of k] by simp
  have "fold F xs (h0[g := h0 ! g + 1]) =
          (h0[g := h0 ! g + 1])[g := (h0[g := h0 ! g + 1]) ! g + length xs]"
    by (rule Cons.IH) (simp_all add: Cons.prems)
  then show ?case using Cons.prems(2) by (simp add: step)
qed

lemma flat_histogram:
  "luma_histogram (data (flat_image w h gray_pixel)) = (replicate 256 0)[128 := w * h]"
proof -
  let ?d = "data (flat_image w h gray_pixel)"
  let ?F = "\<lambda>i histogram. case luma_at ?d i of
               Fin v \<Rightarrow> histogram[nat \<lfloor>v\<rfloor> := histogram ! nat \<lfloor>v\<rfloor> + 1] | _ \<Rightarrow> histogram"
  have "fold ?F (map (\<lambda>k. k * 4) [0..<w * h]) (replicate 256 0)
          = fold (?F \<circ> (\<lambda>k. k * 4)) [0..<w * h] (replicate 256 0)"
    by (simp only: fold_map)
  also have "\<dots> = (replicate 256 0)[128 := replicate 256 0 ! 128 + length [0..<w * h]]"
  proof (rule histogram_fold)
    fix k assume "k \<in> set [0..<w * h]"
    then have "k < w * h" by simp
    from flat_luma_at [OF this] have "luma_at ?d (k * 4) = Fin 128" by (simp only: mult.commute)
    then show "(?F \<circ> (\<lambda>k. k * 4)) k = (\<lambda>hist. hist[128 := hist ! 128 + 1])"
      by (simp add: fun_eq_iff)
  qed simp
  finally show ?thesis
    by (simp add: luma_histogram_def flat_data_length stride_range_4)
qed

lemma flat_normalizedHistogram:
  assumes "0 < w * h"
  shows "normalizedHistogram (flat_image w h gray_pixel) = (replicate 256 (Fin 0))[128 := Fin 1]"
proof -
  have "width (flat_image w h gray_pixel) * height (flat_image w h gray_pixel) = w * h"
    by (simp add: flat_image_def)
  then show ?thesis
    using assms by (simp add: normalizedHistogram_def flat_histogram map_update)
qed

lemma js_nth_delta:
  "i < 256 \<Longrightarrow> js_nth ((replicate 256 (Fin 0))[128 := Fin 1]) i = Fin (if i = 128 then 1 else 0)"
  by (simp add: js_nth_def nth_list_update)

lemma fold_Fin_sum:
  assumes "\<And>i. i \<in> set xs \<Longrightarrow> g i = Fin (r i)"
  shows "fold (\<lambda>i acc. js_add acc (g i)) xs (Fin a) = Fin (a + sum_list (map r xs))"
  using assms by (induction xs arbitrary: a) (simp_all add: add.assoc)

lemma sum_list_delta:
  "sum_list (map (\<lambda>i. if i = k then c i else (0::real)) [0..<n]) = (if k < n then c k else 0)"
  by (induction n) simp_all

lemma flat_exposure_mean:
  assumes "0 < w * h"
  shows "exposure_mean (flat_image w h gray_pixel) = Fin 128"
proof -
  have "fold (\<lambda>i acc. js_add acc (js_mul (Fin (real i)) (js_nth ((replicate 256 (Fin 0))[128 := Fin 1]) i)))
             [0..<256] (Fin 0)
          = Fin (0 + sum_list (map (\<lambda>i. if i = 128 then real i else 0) [0..<256]))"
    by (rule fold_Fin_sum) (simp add: js_nth_delta)
  then show ?thesis
    by (simp add: exposure_mean_def flat_normalizedHistogram [OF assms] sum_list_delta
             del: upt_Suc)
qed

lemma flat_exposure_stdDev:
  assumes "0 < w * h"
  shows "exposure_stdDev (flat_image w h gray_pixel) = Fin 0"
proof -
  have "fold (\<lambda>i acc. js_add acc (js_mul (js_pow2 (js_sub (Fin (real i)) (Fin 128)))
                                        (js_nth ((replicate 256 (Fin 0))[128 := Fin 1]) i)))
             [0..<256] (Fin 0)
          = Fin (0 + sum_list (map (\<lambda>i. if i = 128 then 0 else 0) [0..<256]))"
    by (rule fold_Fin_sum) (simp add: js_nth_delta js_pow2_def js_sub_def)
  then show ?thesis
    by (simp add: exposure_stdDev_def flat_exposure_mean [OF assms]
                  flat_normalizedHistogram [OF assms] sum_list_delta del: upt_Suc)
qed

lemma flat_exposure_scores:
  assumes "0 < w * h"
  shows "exposure_meanScore (flat_image w h gray_pixel) = Fin 1"
    and "exposure_stdDevScore (flat_image w h gray_pixel) = Fin 0"
  by (simp_all add: exposure_meanScore_def exposure_stdDevScore_def flat_exposure_mean [OF assms]
                    flat_exposure_stdDev [OF assms] js_sub_def js_min_def)

lemma fold_add_zero:
  "(\<And>v. v \<in> set xs \<Longrightarrow> v = Fin 0) \<Longrightarrow> fold (\<lambda>val acc. js_add acc val) xs (Fin a) = Fin a"
proof (induction xs)
  case Nil
  then show ?case by simp
next
  case (Cons v xs)
  have "v = Fin 0" by (rule Cons.prems) simp
  moreover have "fold (\<lambda>val acc. js_add acc val) xs (Fin a) = Fin a"
    by (rule Cons.IH, rule Cons.prems) simp
  ultimately show ?case by simp
qed

lemma flat_analyzeExposure:
  assumes "0 < w * h"
  shows "analyzeExposure (flat_image w h gray_pixel) = Fin 0.5"
proof -
  let ?nh = "(replicate 256 (Fin 0))[128 := Fin 1]"
  have dark: "fold (\<lambda>val acc. js_add acc val) (take 50 ?nh) (Fin 0) = Fin 0"
    by (rule fold_add_zero) (auto simp: in_set_conv_nth nth_list_update)
  have bright: "fold (\<lambda>val acc. js_add acc val) (take 56 (drop 200 ?nh)) (Fin 0) = Fin 0"
    by (rule fold_add_zero) (auto simp: in_set_conv_nth nth_list_update)
  show ?thesis
    unfolding analyzeExposure_def Let_def flat_normalizedHistogram [OF assms] dark bright
              flat_exposure_scores [OF assms]
    by (simp add: js_sub_def js_max_def)
qed

subsection \<open>The sort\<close>

lemma length_js_insert: "length (js_insert cmp x ys) = Suc (length ys)"
  by (induction ys) simp_all

lemma length_js_sort: "length (js_sort cmp xs) = length xs"
  by (induction xs) (simp_all add: js_sort_def length_js_insert)

lemma mset_js_insert: "mset (js_insert cmp x ys) = add_mset x (mset ys)"
  by (induction ys) simp_all

lemma mset_js_sort: "mset (js_sort cmp xs) = mset xs"
  by (induction xs) (simp_all add: js_sort_def mset_js_insert)

lemma set_js_sort: "set (js_sort cmp xs) = set xs"
  using mset_js_sort [of cmp xs] by (metis set_mset_mset)

subsection \<open>analyzeColorHarmony\<close>

lemma flat_color_step:
  assumes "i < w * h" "cm = [] \<or> (\<exists>e. cm = [(gray_key, e)])"
  shows "\<exists>e. color_step (data (flat_image w h gray_pixel)) i cm = [(gray_key, e)]"
proof -
  let ?d = "data (flat_image w h gray_pixel)"
  have c: "chan ?d (i * 4) = Fin 128" "chan ?d (i * 4 + 1) = Fin 128" "chan ?d (i * 4 + 2) = Fin 128"
    using flat_chan [OF assms(1), of 0] flat_chan [OF assms(1), of 1] flat_chan [OF assms(1), of 2]
    by (simp_all add: mult.commute)
  have c': "chan ?d (Suc (i * 4)) = Fin 128" "chan ?d (Suc (Suc (i * 4))) = Fin 128"
    using c(2,3) by simp_all
  have q: "quantize (Fin 128) = Fin 128" by (simp add: quantize_def)
  from assms(2) show ?thesis
  proof
    assume "cm = []"
    then show ?thesis by (simp add: color_step_def Let_def c c' q gray_key_def)
  next
    assume "\<exists>e. cm = [(gray_key, e)]"
    then obtain e where "cm = [(gray_key, e)]" ..
    then show ?thesis by (simp add: color_step_def Let_def c c' q gray_key_def)
  qed
qed

lemma flat_colorMap:
  assumes "\<And>i. i \<in> set xs \<Longrightarrow> i < w * h" "cm = [] \<or> (\<exists>e. cm = [(gray_key, e)])"
  shows "length (fold (color_step (data (flat_image w h gray_pixel))) xs cm) \<le> 1"
  using assms
proof (induction xs arbitrary: cm)
  case Nil
  then show ?case by auto
next
  case (Cons i xs)
  have "i < w * h" by (rule Cons.prems(1)) simp
  from flat_color_step [OF this Cons.prems(2)]
  have "color_step (data (flat_image w h gray_pixel)) i cm = [] \<or>
        (\<exists>e. color_step (data (flat_image w h gray_pixel)) i cm = [(gray_key, e)])" by blast
  then have "length (fold (color_step (data (flat_image w h gray_pixel))) xs
                        (color_step (data (flat_image w h gray_pixel)) i cm)) \<le> 1"
    by (rule Cons.IH [rotated]) (simp add: Cons.prems(1))
  then show ?case by simp
qed

lemma sampleRate_pos: "0 < sampleRate n"
  by (simp add: sampleRate_def)

lemma sampled_pixels_in_range: "i \<in> set (sampled_pixels img) \<Longrightarrow> i < width img * height img"
  by (simp add: sampled_pixels_def Let_def stride_range_set [OF sampleRate_pos])

lemma flat_extractDominantColors:
  "length (extractDominantColors (flat_image w h gray_pixel) n) \<le> 1"
proof -
  have "length (fold (color_step (data (flat_image w h gray_pixel)))
                     (sampled_pixels (flat_image w h gray_pixel)) []) \<le> 1"
  proof (rule flat_colorMap)
    fix i assume "i \<in> set (sampled_pixels (flat_image w h gray_pixel))"
    from sampled_pixels_in_range [OF this] show "i < w * h" by (simp add: flat_image_def)
  qed simp
  then show ?thesis
    by (simp add: extractDominantColors_def Let_def length_js_sort)
qed

lemma flat_analyzeColorHarmony: "analyzeColorHarmony (flat_image w h gray_pixel) = Fin 0"
  using flat_extractDominantColors [of w h 5] by (simp add: analyzeColorHarmony_def Let_def)

subsection \<open>analyzeComposition\<close>

lemma js_add_NaN [simp]: "js_add x NaN = NaN"
  by (cases x) simp_all

lemma js_mul_NaN [simp]: "js_mul x NaN = NaN"
  by (cases x) simp_all

lemma js_div_NaN [simp]: "js_div x NaN = NaN"
  by (cases x) simp_all

lemma edge_value_replicate:
  assumes "w + 1 \<le> idx" "idx + w + 1 < n"
  shows "edge_value (replicate n g) w idx = 0"
  using assms by (simp add: edge_value_def js_gt_def)

lemma findEdges_flat: "findEdges (flat_image w h gray_pixel) = replicate (w * h) 0"
proof -
  have wh: "width (flat_image w h gray_pixel) = w" "height (flat_image w h gray_pixel) = h"
    by (simp_all add: flat_image_def)
  show ?thesis
    unfolding findEdges_def Let_def wh flat_grayscale
  proof (rule fold_rows_const)
    fix y x assume "y \<in> set [1..<h - 1]" "x \<in> set [1..<w - 1]"
    then have "1 \<le> y" "y < h - 1" "1 \<le> x" "x < w - 1" by simp_all
    from interior_index [OF this]
    show "edge_value (replicate (w * h) 128) w (y * w + x) = 0"
      by (intro edge_value_replicate) simp_all
  qed
qed

lemma fold_id: "(\<And>x. x \<in> set xs \<Longrightarrow> f x = (\<lambda>a. a)) \<Longrightarrow> fold f xs a = a"
  by (induction xs) simp_all

lemma balance_weights_no_edges:
  assumes "\<And>idx. \<not> is_edge edges idx"
  shows "balance_weights edges w h = (0, 0, 0, 0)"
  unfolding balance_weights_def Let_def
  by (rule fold_id, rule ext, rule fold_id) (simp add: assms fun_eq_iff)

text \<open>Without a single edge pixel all four weights are 0 and both balance ratios are
  \<open>0 / 0\<close>.\<close>

lemma calculateVisualBalance_no_edges:
  assumes "\<And>idx. \<not> is_edge edges idx"
  shows "calculateVisualBalance edges w h = NaN"
  by (simp add: calculateVisualBalance_def balance_weights_no_edges [OF assms])

lemma no_edges_replicate: "\<not> is_edge (replicate n 0) idx"
  by (simp add: is_edge_def)

lemma analyzeComposition_flat: "analyzeComposition (flat_image w h gray_pixel) = NaN"
  by (simp add: analyzeComposition_def Let_def findEdges_flat
                calculateVisualBalance_no_edges [OF no_edges_replicate])

lemma analyzeAesthetics_flat: "meanScore (analyzeAesthetics (flat_image w h gray_pixel)) = NaN"
  by (simp add: analyzeAesthetics_def Let_def analyzeComposition_flat)

lemma calculateOverallScore_NaN_mean:
  assumes "meanScore A = NaN"
  shows "calculateOverallScore T A F = NaN"
  using assms by (simp add: calculateOverallScore_def Let_def)

lemma analyze_photo_flat:
  assumes "loadImage (image_url photo) = Some (flat_image w h gray_pixel)"
  shows "\<exists>r. analyze_photo loadImage detectFaces photo = Some r \<and> photoId r = photo_id photo \<and>
             overallScore r = NaN"
  using assms
  by (simp add: analyze_photo_def Let_def calculateOverallScore_NaN_mean [OF analyzeAesthetics_flat])

subsection \<open>The batch\<close>

lemma analyze_photo_None: "analyze_photo L D p = None \<longleftrightarrow> L (image_url p) = None"
  by (simp add: analyze_photo_def Let_def split: option.splits)

lemma analyze_photo_id: "analyze_photo L D p = Some r \<Longrightarrow> photoId r = photo_id p"
  by (auto simp: analyze_photo_def Let_def split: option.splits)

text \<open>The loop collects the results of the photos that load, in the order of the batch,
  and emits one event for each photo: the progress after a photo that was analysed, the
  logged error after one that was not.\<close>

lemma analysis_fold:
  "fold (analysis_step L D photos) xs (rs, ev) =
     (rs @ map (\<lambda>i. the (analyze_photo L D (photos ! i)))
               (filter (\<lambda>i. L (image_url (photos ! i)) \<noteq> None) xs),
      ev @ map (\<lambda>i. if L (image_url (photos ! i)) \<noteq> None
                     then SetProgress (progress_value i (length photos))
                     else ConsoleError i) xs)"
proof (induction xs arbitrary: rs ev)
  case Nil
  then show ?case by simp
next
  case (Cons i xs)
  show ?case
  proof (cases "analyze_photo L D (photos ! i)")
    case None
    then have l: "L (image_url (photos ! i)) = None" by (simp add: analyze_photo_None)
    have step: "analysis_step L D photos i (rs, ev) = (rs, ev @ [ConsoleError i])"
      using None by (simp add: analysis_step_def)
    show ?thesis by (simp only: fold_simps step Cons.IH) (simp add: l)
  next
    case (Some r)
    then have l: "L (image_url (photos ! i)) \<noteq> None"
      using analyze_photo_None [of L D "photos ! i"] by simp
    have step: "analysis_step L D photos i (rs, ev) =
                  (rs @ [r], ev @ [SetProgress (progress_value i (length photos))])"
      using Some by (simp add: analysis_step_def)
    show ?thesis by (simp only: fold_simps step Cons.IH) (simp add: l Some)
  qed
qed

lemma analysis_loop_eq:
  "analysis_loop L D photos =
     (map (\<lambda>i. the (analyze_photo L D (photos ! i)))
          (filter (\<lambda>i. L (image_url (photos ! i)) \<noteq> None) [0..<length photos]),
      map (\<lambda>i. if L (image_url (photos ! i)) \<noteq> None
                then SetProgress (progress_value i (length photos))
                else ConsoleError i) [0..<length photos])"
  unfolding analysis_loop_def using analysis_fold [of L D photos "[0..<length photos]" "[]" "[]"]
  by simp

lemma progress_updates_append: "progress_updates (xs @ ys) = progress_updates xs @ progress_updates ys"
  by (simp add: progress_updates_def)

lemma delivered_append: "delivered (xs @ ys) = delivered xs @ delivered ys"
  by (simp add: delivered_def)

lemma progress_updates_loop:
  "progress_updates (map (\<lambda>i. if P i then SetProgress (v i) else ConsoleError i) xs)
     = map v (filter P xs)"
  by (induction xs) (simp_all add: progress_updates_def)

lemma delivered_loop:
  "delivered (map (\<lambda>i. if P i then SetProgress (v i) else ConsoleError i) xs) = []"
  by (induction xs) (simp_all add: delivered_def)

lemma startAnalysis_eq:
  assumes "modelsLoaded" "canvasPresent" "photos \<noteq> []"
  shows "startAnalysis modelsLoaded canvasPresent L D photos =
           [SetIsAnalyzing True, SetProgress (Fin 0), SetResults []] @
           snd (analysis_loop L D photos) @
           [SetResults (js_sort by_score_descending (fst (analysis_loop L D photos))),
            SetIsAnalyzing False,
            OnAnalysisComplete (js_sort by_score_descending (fst (analysis_loop L D photos)))]"
  using assms by (simp add: startAnalysis_def Let_def split: prod.splits)

lemma startAnalysis_delivered:
  assumes "modelsLoaded" "canvasPresent" "photos \<noteq> []"
  shows "delivered (startAnalysis modelsLoaded canvasPresent L D photos) =
           [js_sort by_score_descending (fst (analysis_loop L D photos))]"
proof -
  have a: "delivered [SetIsAnalyzing True, SetProgress (Fin 0), SetResults []] = []"
    by (simp add: delivered_def)
  have b: "delivered (snd (analysis_loop L D photos)) = []"
    by (simp only: analysis_loop_eq snd_conv delivered_loop)
  have c: "delivered [SetResults s, SetIsAnalyzing False, OnAnalysisComplete s] = [s]" for s
    by (simp add: delivered_def)
  show ?thesis
    by (simp only: startAnalysis_eq [OF assms] delivered_append a b c) simp
qed

lemma startAnalysis_progress:
  assumes "modelsLoaded" "canvasPresent" "photos \<noteq> []"
  shows "progress_updates (startAnalysis modelsLoaded canvasPresent L D photos) =
           Fin 0 # map (\<lambda>i. progress_value i (length photos))
                       (filter (\<lambda>i. L (image_url (photos ! i)) \<noteq> None) [0..<length photos])"
proof -
  have a: "progress_updates [SetIsAnalyzing True, SetProgress (Fin 0), SetResults []] = [Fin 0]"
    by (simp add: progress_updates_def)
  have b: "progress_updates (snd (analysis_loop L D photos)) =
             map (\<lambda>i. progress_value i (length photos))
                 (filter (\<lambda>i. L (image_url (photos ! i)) \<noteq> None) [0..<length photos])"
    by (simp only: analysis_loop_eq snd_conv progress_updates_loop)
  have c: "progress_updates [SetResults s, SetIsAnalyzing False, OnAnalysisComplete s] = []" for s
    by (simp add: progress_updates_def)
  show ?thesis
    by (simp only: startAnalysis_eq [OF assms] progress_updates_append a b c) simp
qed

lemma half_double: "js_div64 (Fin (1)) (Fin (2)) = Fin (1 / 2 ^ 1)"
  unfolding js_div64_Fin by (subst binary64_binade [where e = "- 1"]) (simp_all add: pow2_def round_ties_even_def)

lemma fifty_double: "js_mul64 (Fin (1 / 2 ^ 1)) (Fin (100)) = Fin (50)"
  unfolding js_mul64_Fin by (subst binary64_binade [where e = "5"]) (simp_all add: pow2_def round_ties_even_def)

lemma quotient_23_40: "js_div64 (Fin (23)) (Fin (40)) = Fin (2589569785738035 / 2 ^ 52)"
  unfolding js_div64_Fin by (subst binary64_binade [where e = "- 1"]) (simp_all add: pow2_def round_ties_even_def)

lemma product_23_40: "js_mul64 (Fin (2589569785738035 / 2 ^ 52)) (Fin (100)) = Fin (8092405580431359 / 2 ^ 47)"
  unfolding js_mul64_Fin by (subst binary64_binade [where e = "5"]) (simp_all add: pow2_def round_ties_even_def)

lemma progress_value_0_2: "progress_value 0 2 = Fin 50"
proof -
  have "js_mul64 (js_div64 (Fin 1) (Fin 2)) (Fin 100) = Fin 50"
    unfolding half_double fifty_double ..
  then show ?thesis by (simp add: progress_value_def)
qed

text \<open>After the 23rd of 40 photos the progress is 57: the double of \<open>(23 / 40) * 100\<close> lies
  below \<open>57.5\<close>, where \<open>round(100 * 23 / 40)\<close> on the reals is 58.\<close>

lemma progress_value_22_40:
  "progress_value 22 40 = Fin 57 \<and> \<lfloor>100 * real (22 + 1) / real 40 + 1 / 2\<rfloor> = 58"
proof -
  have "js_mul64 (js_div64 (Fin 23) (Fin 40)) (Fin 100) = Fin (8092405580431359 / 2 ^ 47)"
    unfolding quotient_23_40 product_23_40 ..
  then show ?thesis by (simp add: progress_value_def)
qed

lemma filter_all_but_one:
  assumes "k < n"
  shows "length (filter (\<lambda>i. i \<noteq> k) [0..<n]) = n - 1"
proof -
  have "[0..<n] = [0..<k] @ k # [Suc k..<n]"
    using assms by (metis le_add1 le_add_same_cancel1 less_imp_add_positive upt_add_eq_append upt_rec)
  then have "filter (\<lambda>i. i \<noteq> k) [0..<n] = filter (\<lambda>i. i \<noteq> k) [0..<k] @ filter (\<lambda>i. i \<noteq> k) [Suc k..<n]"
    by simp
  moreover have "filter (\<lambda>i. i \<noteq> k) [0..<k] = [0..<k]" by (simp add: filter_id_conv)
  moreover have "filter (\<lambda>i. i \<noteq> k) [Suc k..<n] = [Suc k..<n]" by (simp add: filter_id_conv)
  ultimately show ?thesis using assms by simp
qed

subsection \<open>The ranking\<close>

lemma js_sort_Cons: "js_sort cmp (x # xs) = js_insert cmp x (js_sort cmp xs)"
  by (simp add: js_sort_def)

lemma set_js_insert: "set (js_insert cmp x ys) = insert x (set ys)"
  by (induction ys) auto

lemma js_gt_sub_neq: "js_gt (js_sub a b) (Fin 0) \<Longrightarrow> a \<noteq> b"
  by (cases a; cases b) (auto simp: js_gt_def js_sub_def)

text \<open>The insertion keeps the order of the results of any one score.\<close>

lemma js_insert_stable:
  "filter (\<lambda>r. overallScore r = s) (js_insert by_score_descending x ys) =
     (if overallScore x = s then x # filter (\<lambda>r. overallScore r = s) ys
      else filter (\<lambda>r. overallScore r = s) ys)"
proof (induction ys)
  case Nil
  then show ?case by simp
next
  case (Cons y ys)
  show ?case
  proof (cases "js_gt (by_score_descending x y) (Fin 0)")
    case True
    then have "overallScore y \<noteq> overallScore x"
      unfolding by_score_descending_def by (rule js_gt_sub_neq)
    with True Cons.IH show ?thesis by auto
  next
    case False
    then show ?thesis by simp
  qed
qed

lemma js_sort_stable:
  "filter (\<lambda>r. overallScore r = s) (js_sort by_score_descending xs) =
     filter (\<lambda>r. overallScore r = s) xs"
  by (induction xs) (simp_all add: js_sort_Cons js_insert_stable, simp add: js_sort_def)

lemma finite_compare:
  assumes "overallScore x = Fin a" "overallScore y = Fin b"
  shows "js_gt (by_score_descending x y) (Fin 0) \<longleftrightarrow> a < b"
  using assms by (simp add: by_score_descending_def js_gt_def js_sub_def)

lemma js_insert_sorted:
  assumes "sorted_wrt (\<lambda>a b. fin_score b \<le> fin_score a) ys"
    and "\<And>r. r \<in> insert x (set ys) \<Longrightarrow> \<exists>v. overallScore r = Fin v"
  shows "sorted_wrt (\<lambda>a b. fin_score b \<le> fin_score a) (js_insert by_score_descending x ys)"
  using assms
proof (induction ys)
  case Nil
  then show ?case by simp
next
  case (Cons y ys)
  obtain a where a: "overallScore x = Fin a" using Cons.prems(2) [of x] by auto
  obtain b where b: "overallScore y = Fin b" using Cons.prems(2) [of y] by auto
  have fs: "fin_score x = a" "fin_score y = b" by (simp_all add: fin_score_def a b)
  show ?case
  proof (cases "a < b")
    case True
    have "sorted_wrt (\<lambda>a b. fin_score b \<le> fin_score a) (js_insert by_score_descending x ys)"
      using Cons.prems by (intro Cons.IH) auto
    moreover have "\<forall>z \<in> set (js_insert by_score_descending x ys). fin_score z \<le> fin_score y"
      using Cons.prems(1) True by (auto simp: set_js_insert fs)
    ultimately show ?thesis using True by (simp add: finite_compare [OF a b])
  next
    case False
    then have "\<forall>z \<in> set (y # ys). fin_score z \<le> fin_score x"
      using Cons.prems(1) by (auto simp: fs)
    then show ?thesis using False Cons.prems(1) by (simp add: finite_compare [OF a b])
  qed
qed

lemma js_sort_sorted:
  assumes "\<And>r. r \<in> set xs \<Longrightarrow> \<exists>v. overallScore r = Fin v"
  shows "sorted_wrt (\<lambda>a b. fin_score b \<le> fin_score a) (js_sort by_score_descending xs)"
  using assms
proof (induction xs)
  case Nil
  then show ?case by (simp add: js_sort_def)
next
  case (Cons x xs)
  have "sorted_wrt (\<lambda>a b. fin_score b \<le> fin_score a) (js_sort by_score_descending xs)"
    by (rule Cons.IH, rule Cons.prems) simp
  then show ?case
    unfolding js_sort_Cons
    by (rule js_insert_sorted) (use Cons.prems in \<open>auto simp: set_js_sort\<close>)
qed

lemma js_ge_finite:
  assumes "overallScore x = Fin a" "overallScore y = Fin b"
  shows "js_ge (overallScore x) (overallScore y) \<longleftrightarrow> fin_score y \<le> fin_score x"
  using assms by (auto simp: js_ge_def js_eq_def fin_score_def)

text \<open>Where every collected score is a finite number, the delivered list is in
  descending order of the score, and results of equal score are in the order of the
  batch.\<close>

lemma js_sort_descending:
  assumes "\<And>r. r \<in> set xs \<Longrightarrow> \<exists>v. overallScore r = Fin v" "i + 1 < length xs"
  shows "js_ge (overallScore (js_sort by_score_descending xs ! i))
               (overallScore (js_sort by_score_descending xs ! (i + 1)))"
proof -
  let ?ys = "js_sort by_score_descending xs"
  have len: "i + 1 < length ?ys" using assms(2) by (simp add: length_js_sort)
  then have mem: "?ys ! i \<in> set xs" "?ys ! (i + 1) \<in> set xs"
    using set_js_sort [of by_score_descending xs] nth_mem [of i ?ys] nth_mem [of "i + 1" ?ys]
    by auto
  obtain a where a: "overallScore (?ys ! i) = Fin a" using assms(1) [OF mem(1)] by auto
  obtain b where b: "overallScore (?ys ! (i + 1)) = Fin b" using assms(1) [OF mem(2)] by auto
  have "fin_score (?ys ! (i + 1)) \<le> fin_score (?ys ! i)"
    using js_sort_sorted [OF assms(1)] len by (simp add: sorted_wrt_iff_nth_less)
  then show ?thesis by (simp only: js_ge_finite [OF a b])
qed

section \<open>The analyzers on concrete images\<close>

lemma map_const_replicate: "(\<And>x. x \<in> set xs \<Longrightarrow> f x = c) \<Longrightarrow> map f xs = replicate (length xs) c"
  by (induction xs) simp_all

lemma generateScoreDistribution_NaN: "generateScoreDistribution NaN = replicate 10 NaN"
proof -
  have dist: "map (\<lambda>i. let score = Fin (real (i + 1)); z = js_div (js_sub score NaN) (Fin 1)
                        in js_exp (js_mul (js_mul (Fin (- 0.5)) z) z)) [0..<10]
                = replicate 10 NaN"
    by (simp add: js_sub_def Let_def map_replicate_const)
  have total: "fold (\<lambda>v acc. js_add acc v) (replicate 10 NaN) (Fin 0) = NaN"
    by (simp add: eval_nat_numeral)
  have "map (\<lambda>v. js_div v NaN) (replicate 10 NaN) = replicate 10 NaN"
    by simp
  then show ?thesis
    unfolding generateScoreDistribution_def Let_def
    using dist total by (simp add: Let_def)
qed

lemma js_div_pos: "0 < b \<Longrightarrow> js_div (Fin a) (Fin b) = Fin (a / b)"
  by simp

lemma calculateVisualBalance_formula:
  assumes "balance_weights edges w h = (l, r, t, b)" "0 < max l r" "0 < max t b"
  shows "calculateVisualBalance edges w h =
           Fin (real (min l r) / real (max l r) * 0.5 + real (min t b) / real (max t b) * 0.5)"
proof -
  have h: "js_div (Fin (real (min l r))) (Fin (real (max l r))) = Fin (real (min l r) / real (max l r))"
    by (rule js_div_pos) (use assms(2) in simp)
  have v: "js_div (Fin (real (min t b))) (Fin (real (max t b))) = Fin (real (min t b) / real (max t b))"
    by (rule js_div_pos) (use assms(3) in simp)
  show ?thesis
    by (simp only: calculateVisualBalance_def assms(1) prod.case Let_def h v js_mul.simps js_add.simps)
qed

lemma fold_invariant:
  "(\<And>x a. x \<in> set xs \<Longrightarrow> P a \<Longrightarrow> P (f x a)) \<Longrightarrow> P a \<Longrightarrow> P (fold f xs a)"
  by (induction xs arbitrary: a) simp_all

text \<open>Every edge pixel counts once on the horizontal and once on the vertical axis, so
  the two axes have the same total: an axis has no edge pixel on either side only where
  there is no edge pixel at all.\<close>

lemma balance_weights_totals:
  assumes "balance_weights edges w h = (l, r, t, b)"
  shows "l + r = t + b"
proof -
  let ?P = "\<lambda>(l, r, t, b). l + r = t + (b::nat)"
  have "?P (balance_weights edges w h)"
    unfolding balance_weights_def Let_def
    by (rule fold_invariant, rule fold_invariant) (auto split: prod.splits)
  with assms show ?thesis by simp
qed

lemma calculateVisualBalance_cases:
  assumes "balance_weights edges w h = (l, r, t, b)"
  shows "calculateVisualBalance edges w h =
           (if l + r = 0 then NaN
            else Fin (real (min l r) / real (max l r) * 0.5 + real (min t b) / real (max t b) * 0.5))"
proof (cases "l + r = 0")
  case True
  with balance_weights_totals [OF assms] have "l = 0" "r = 0" "t = 0" "b = 0" by simp_all
  with assms show ?thesis by (simp add: calculateVisualBalance_def)
next
  case False
  with balance_weights_totals [OF assms] have "0 < max l r" "0 < max t b" by auto
  with False show ?thesis by (simp add: calculateVisualBalance_formula [OF assms])
qed

lemma blurScore_technical: "blurScore (analyzeTechnicalQuality img) = detectBlur img"
  by (simp add: analyzeTechnicalQuality_def Let_def)

lemma technical_NaN_blur:
  "detectBlur img = NaN \<Longrightarrow> technicalOverallScore (analyzeTechnicalQuality img) = NaN"
  by (simp add: analyzeTechnicalQuality_def Let_def)

text \<open>
  C1. The claim: for every raster and expression input every component score lies in
  \<open>[0, 1]\<close>, \<open>meanScore\<close> in \<open>[1, 10]\<close>, \<open>scoreDistribution\<close> has 10 non-negative
  entries that sum to 1, and no analyzer emits \<^verbatim>\<open>NaN\<close>. The code on the flat gray image
  of 64 by 64 pixels: no pixel is an edge, the balance is \<open>0 / 0\<close>, so \<open>meanScore\<close>, the
  ten entries of \<open>scoreDistribution\<close> and the fused score are \<^verbatim>\<open>NaN\<close>; and on the image of
  one pixel \<open>blurScore\<close> and the technical score are \<^verbatim>\<open>NaN\<close>.
\<close>

theorem flat_gray_scores_are_NaN:
  "meanScore (analyzeAesthetics (flat_image 64 64 gray_pixel)) = NaN \<and>
   scoreDistribution (analyzeAesthetics (flat_image 64 64 gray_pixel)) = replicate 10 NaN \<and>
   calculateOverallScore (analyzeTechnicalQuality (flat_image 64 64 gray_pixel))
     (analyzeAesthetics (flat_image 64 64 gray_pixel)) (analyzeFaceExpressions (Some [])) = NaN \<and>
   blurScore (analyzeTechnicalQuality (flat_image 1 1 gray_pixel)) = NaN \<and>
   technicalOverallScore (analyzeTechnicalQuality (flat_image 1 1 gray_pixel)) = NaN"
proof -
  have m: "meanScore (analyzeAesthetics (flat_image 64 64 gray_pixel)) = NaN"
    by (rule analyzeAesthetics_flat)
  have d: "scoreDistribution (analyzeAesthetics (flat_image 64 64 gray_pixel)) = replicate 10 NaN"
    using m by (simp add: analyzeAesthetics_def Let_def generateScoreDistribution_NaN)
  have b: "detectBlur (flat_image 1 1 gray_pixel) = NaN"
    by (rule detectBlur_small) (simp add: flat_image_def)
  show ?thesis
    by (simp only: m d calculateOverallScore_NaN_mean [OF m] blurScore_technical b
                   technical_NaN_blur [OF b] simp_thms)
qed

text \<open>
  C5. The claim: for every image less than 3 pixels wide or high, the blur and the noise
  computation do not divide by zero, each returning its neutral default. The code on
  the flat gray image of 2 by 2 pixels: \<^verbatim>\<open>detectNoise\<close> visits no block and returns its
  default 0.5; \<^verbatim>\<open>detectBlur\<close> has no guard, divides 0 by the count 0 and returns
  \<^verbatim>\<open>NaN\<close> (as for every such image, lemma \<open>detectBlur_small\<close>).
\<close>

theorem detectBlur_two_by_two:
  "detectBlur (flat_image 2 2 gray_pixel) = NaN \<and> detectNoise (flat_image 2 2 gray_pixel) = Fin 0.5"
proof -
  have "detectBlur (flat_image 2 2 gray_pixel) = NaN"
    by (rule detectBlur_small) (simp add: flat_image_def)
  moreover have "detectNoise (flat_image 2 2 gray_pixel) = Fin 0.5"
    by (simp add: detectNoise_flat noise_blocks_small)
  ultimately show ?thesis by simp
qed

text \<open>
  C6. The claim: the balance is \<open>0.5 * min/max\<close> of the left and right counts plus
  \<open>0.5 * min/max\<close> of the top and bottom counts, an axis with no edge pixel on either
  side counting as balance 1. The code on an edge map without edge pixels (3 by 3 zeros,
  and the edge map of the flat gray image of 64 by 64 pixels): all four counts are 0 and
  the result is \<^verbatim>\<open>NaN\<close>, not 1. (With an edge pixel the formula holds, and without one
  the result is \<^verbatim>\<open>NaN\<close>, lemma \<open>calculateVisualBalance_cases\<close>.)
\<close>

theorem calculateVisualBalance_without_edges:
  "balance_weights (replicate 9 0) 3 3 = (0, 0, 0, 0) \<and>
   calculateVisualBalance (replicate 9 0) 3 3 = NaN \<and>
   calculateVisualBalance (findEdges (flat_image 64 64 gray_pixel)) 64 64 = NaN"
  by (simp add: balance_weights_no_edges [OF no_edges_replicate]
                calculateVisualBalance_no_edges [OF no_edges_replicate] findEdges_flat)

text \<open>
  C7. The claim: the noise analysis considers exactly the non-overlapping 8 by 8 blocks
  that partition the image, every full block a candidate. The loops of the code stop at
  \<^verbatim>\<open>y < height - blockSize\<close> and \<^verbatim>\<open>x < width - blockSize\<close>, so a full block that ends on
  the last row or column is not visited (lemma \<open>noise_blocks_set\<close>). On the flat gray
  image of 8 by 8 pixels, which is one full block (the source's own count \<^verbatim>\<open>blocks\<close> is
  1), the code visits no block and returns 0.5, where the analysis over the partition
  returns 1; of the 4 full blocks of a 16 by 16 image the code visits 1.
\<close>

theorem detectNoise_skips_last_blocks:
  "noise_blocks 8 8 8 = [] \<and> blocks_count 8 8 8 = 1 \<and> spec_blocks 8 8 8 = [(0, 0)] \<and>
   detectNoise (flat_image 8 8 gray_pixel) = Fin 0.5 \<and>
   spec_detectNoise (flat_image 8 8 gray_pixel) = Fin 1 \<and>
   length (noise_blocks 16 16 8) = 1 \<and> blocks_count 16 16 8 = 4"
proof -
  have "noise_sums (flat_image 8 8 gray_pixel) [(0, 0)] = (Fin 0, length [(0::nat, 0::nat)])"
    by (rule noise_sums_flat) simp
  then have "spec_detectNoise (flat_image 8 8 gray_pixel) = Fin 1"
    by (simp add: spec_detectNoise_def flat_image_def spec_blocks_def noise_score_def
                  js_sub_def js_min_def js_max_def)
  moreover have "length (noise_blocks 16 16 8) = 1"
    by (simp add: noise_blocks_def stride_range_def)
  ultimately show ?thesis
    by (simp add: detectNoise_flat noise_blocks_small blocks_count_def spec_blocks_def)
qed

text \<open>
  C8. The claim: with \<open>stride = max(1, floor(pixelCount / 1000))\<close> the sampling visits at
  most 1000 pixels. The code on an image of 40 by 40 pixels: the stride is 1 and all
  1600 pixels are visited. (The number of visited pixels is below 2000 for every image,
  lemma \<open>sampled_pixels_bound\<close>.)
\<close>

theorem sampling_visits_1600_pixels:
  "sampleRate (40 * 40) = 1 \<and> length (sampled_pixels (flat_image 40 40 gray_pixel)) = 1600"
  by (simp add: sampleRate_def sampled_pixels_def flat_image_def stride_range_def Let_def)

text \<open>
  C9. On the flat gray image of 64 by 64 pixels, all of them \<open>(128, 128, 128, 255)\<close>:
  \<open>blurScore = 0\<close>, \<open>noiseScore = 1\<close>, fewer than two dominant colors and
  \<open>harmonyScore = 0\<close>, and in the exposure computation \<open>meanScore = 1\<close> and
  \<open>stdDevScore = 0\<close> (so that \<open>exposureScore = 0.5\<close>).
\<close>

theorem flat_gray_64:
  "detectBlur (flat_image 64 64 gray_pixel) = Fin 0 \<and>
   detectNoise (flat_image 64 64 gray_pixel) = Fin 1 \<and>
   length (extractDominantColors (flat_image 64 64 gray_pixel) 5) < 2 \<and>
   analyzeColorHarmony (flat_image 64 64 gray_pixel) = Fin 0 \<and>
   exposure_meanScore (flat_image 64 64 gray_pixel) = Fin 1 \<and>
   exposure_stdDevScore (flat_image 64 64 gray_pixel) = Fin 0 \<and>
   analyzeExposure (flat_image 64 64 gray_pixel) = Fin 0.5"
proof -
  have "detectBlur (flat_image 64 64 gray_pixel) = Fin 0" by (rule detectBlur_flat) simp_all
  moreover have "detectNoise (flat_image 64 64 gray_pixel) = Fin 1"
    by (simp add: detectNoise_flat noise_blocks_64)
  moreover have "length (extractDominantColors (flat_image 64 64 gray_pixel) 5) < 2"
    using flat_extractDominantColors [of 64 64 5] by simp
  moreover have "exposure_meanScore (flat_image 64 64 gray_pixel) = Fin 1"
    by (rule flat_exposure_scores) simp
  moreover have "exposure_stdDevScore (flat_image 64 64 gray_pixel) = Fin 0"
    by (rule flat_exposure_scores) simp
  moreover have "analyzeExposure (flat_image 64 64 gray_pixel) = Fin 0.5"
    by (rule flat_analyzeExposure) simp
  ultimately show ?thesis by (simp add: flat_analyzeColorHarmony)
qed

text \<open>
  C10. For every image whose width or height is at most 8 pixels, whatever its pixels,
  the loops of the noise analysis visit no block and the result is the neutral 0.5.
\<close>

theorem detectNoise_at_most_8:
  "width img \<le> 8 \<or> height img \<le> 8 \<Longrightarrow>
     noise_blocks (width img) (height img) 8 = [] \<and> detectNoise img = Fin 0.5"
  by (simp add: noise_blocks_small detectNoise_no_blocks)

theorem detectNoise_at_most_8_witness:
  "(width (flat_image 8 20 gray_pixel) \<le> 8 \<or> height (flat_image 8 20 gray_pixel) \<le> 8) \<and>
   noise_blocks 8 20 8 = [] \<and> detectNoise (flat_image 8 20 gray_pixel) = Fin 0.5"
  using detectNoise_at_most_8 [of "flat_image 8 20 gray_pixel"] by (simp add: flat_image_def)

section \<open>The batch run\<close>

lemma only_failure_filter:
  assumes "k < n" "L (image_url (photos ! k)) = None"
    "\<forall>i<n. i \<noteq> k \<longrightarrow> L (image_url (photos ! i)) \<noteq> None"
  shows "filter (\<lambda>i. L (image_url (photos ! i)) \<noteq> None) [0..<n] = filter (\<lambda>i. i \<noteq> k) [0..<n]"
  by (rule filter_cong [OF refl]) (use assms in auto)

text \<open>
  C3, as the code has it. With the models loaded and the canvas present, let the image
  of exactly one photo \<open>P\<close> (at index \<open>k\<close>) of a batch of \<open>N\<close> photos with distinct ids fail
  to load. Then the batch completes: one list is delivered, it has \<open>N - 1\<close> entries and
  none of them carries the id of \<open>P\<close>. The progress is set to 0 before the loop and then
  once after each photo that was analysed, \<open>N - 1\<close> times in the loop and not after the
  skipped photo; the value for the photo at index \<open>i\<close> is \<open>progress_value i N\<close>, that is
  \<^verbatim>\<open>Math.round(((i + 1) / N) * 100)\<close> as the code computes it on doubles.
\<close>

theorem startAnalysis_skips_failed_photo:
  assumes "modelsLoaded" "canvasPresent" "k < length photos"
    and "loadImage (image_url (photos ! k)) = None"
    and "\<forall>i<length photos. i \<noteq> k \<longrightarrow> loadImage (image_url (photos ! i)) \<noteq> None"
    and "distinct (map photo_id photos)"
  shows "(\<exists>rs. delivered (startAnalysis modelsLoaded canvasPresent loadImage detectFaces photos) = [rs] \<and>
               length rs = length photos - 1 \<and>
               photo_id (photos ! k) \<notin> photoId ` set rs) \<and>
         progress_updates (startAnalysis modelsLoaded canvasPresent loadImage detectFaces photos) =
           Fin 0 # map (\<lambda>i. progress_value i (length photos))
                       (filter (\<lambda>i. i \<noteq> k) [0..<length photos])"
proof -
  let ?n = "length photos"
  let ?A = "\<lambda>i. the (analyze_photo loadImage detectFaces (photos ! i))"
  let ?rs = "js_sort by_score_descending (fst (analysis_loop loadImage detectFaces photos))"
  have ne: "photos \<noteq> []" using assms(3) by auto
  note flt = only_failure_filter [OF assms(3,4,5)]
  have loop: "fst (analysis_loop loadImage detectFaces photos) = map ?A (filter (\<lambda>i. i \<noteq> k) [0..<?n])"
    by (simp only: analysis_loop_eq fst_conv flt)
  have del: "delivered (startAnalysis modelsLoaded canvasPresent loadImage detectFaces photos) = [?rs]"
    by (rule startAnalysis_delivered [OF assms(1,2) ne])
  have len: "length ?rs = ?n - 1"
    by (simp only: length_js_sort loop length_map filter_all_but_one [OF assms(3)])
  have ids: "photo_id (photos ! k) \<notin> photoId ` set ?rs"
  proof
    assume "photo_id (photos ! k) \<in> photoId ` set ?rs"
    then obtain r where r: "r \<in> set ?rs" "photoId r = photo_id (photos ! k)" by auto
    from r(1) have "r \<in> set (map ?A (filter (\<lambda>i. i \<noteq> k) [0..<?n]))"
      by (simp only: set_js_sort loop)
    then obtain i where i: "i < ?n" "i \<noteq> k" "r = ?A i" by auto
    from i(1,2) assms(5) have "loadImage (image_url (photos ! i)) \<noteq> None" by simp
    then obtain r' where r': "analyze_photo loadImage detectFaces (photos ! i) = Some r'"
      using analyze_photo_None [of loadImage detectFaces "photos ! i"] by auto
    with i(3) have "photoId r = photo_id (photos ! i)" by (simp add: analyze_photo_id [OF r'])
    with r(2) have "map photo_id photos ! i = map photo_id photos ! k"
      using i(1) assms(3) by simp
    moreover have "(map photo_id photos ! i = map photo_id photos ! k) = (i = k)"
      by (rule nth_eq_iff_index_eq) (use assms(6) i(1) assms(3) in simp_all)
    ultimately have "i = k" by (simp only:)
    with i(2) show False by simp
  qed
  have prog: "progress_updates (startAnalysis modelsLoaded canvasPresent loadImage detectFaces photos) =
                Fin 0 # map (\<lambda>i. progress_value i ?n) (filter (\<lambda>i. i \<noteq> k) [0..<?n])"
    by (simp only: startAnalysis_progress [OF assms(1,2) ne] flt)
  from prog del len ids show ?thesis by simp
qed

lemma example_photos_simps:
  "length example_photos = 2"
  "example_photos \<noteq> []"
  "map photo_id example_photos = [''p1'', ''p2'']"
  "photo_id (example_photos ! 1) = ''p2''"
  by (simp_all add: example_photos_def)

lemma second_fails_simps:
  "second_fails (image_url (example_photos ! 0)) \<noteq> None"
  "second_fails (image_url (example_photos ! 1)) = None"
  "second_fails (image_url (example_photos ! Suc 0)) = None"
  by (simp_all add: example_photos_def image_url_def second_fails_def)

lemma example_filter:
  "filter (\<lambda>i. second_fails (image_url (example_photos ! i)) \<noteq> None) [0..<length example_photos] = [0]"
proof -
  have "[0..<length example_photos] = [0, 1]"
    by (simp add: example_photos_simps(1) upt_rec)
  then show ?thesis using second_fails_simps by simp
qed

theorem startAnalysis_skips_failed_photo_witness:
  "(1::nat) < length example_photos \<and>
   second_fails (image_url (example_photos ! 1)) = None \<and>
   second_fails (image_url (example_photos ! 0)) \<noteq> None \<and>
   distinct (map photo_id example_photos) \<and>
   map length (delivered (startAnalysis True True second_fails no_faces example_photos)) = [1] \<and>
   ''p2'' \<notin> photoId ` (\<Union> (set ` set (delivered (startAnalysis True True second_fails no_faces example_photos)))) \<and>
   progress_updates (startAnalysis True True second_fails no_faces example_photos) = [Fin 0, Fin 50]"
proof -
  have h1: "(1::nat) < length example_photos" by (simp add: example_photos_simps)
  have h2: "second_fails (image_url (example_photos ! 1)) = None" by (rule second_fails_simps)
  have h3: "\<forall>i<length example_photos. i \<noteq> 1 \<longrightarrow> second_fails (image_url (example_photos ! i)) \<noteq> None"
  proof (intro allI impI)
    fix i :: nat assume "i < length example_photos" "i \<noteq> 1"
    then have "i = 0" by (simp add: example_photos_simps(1))
    then show "second_fails (image_url (example_photos ! i)) \<noteq> None"
      by (simp only: second_fails_simps(1) not_False_eq_True)
  qed
  have h4: "distinct (map photo_id example_photos)" by (simp add: example_photos_simps)
  have f: "filter (\<lambda>i. i \<noteq> 1) [0..<length example_photos] = [0::nat]"
    by (simp add: example_photos_simps(1) upt_rec)
  have v: "progress_value 0 (length example_photos) = Fin 50"
    by (simp only: example_photos_simps(1) progress_value_0_2)
  from startAnalysis_skips_failed_photo [OF TrueI TrueI h1 h2 h3 h4, of no_faces]
  obtain rs where rs: "delivered (startAnalysis True True second_fails no_faces example_photos) = [rs]"
      "length rs = length example_photos - 1" "photo_id (example_photos ! 1) \<notin> photoId ` set rs"
    and p: "progress_updates (startAnalysis True True second_fails no_faces example_photos) =
              Fin 0 # map (\<lambda>i. progress_value i (length example_photos))
                          (filter (\<lambda>i. i \<noteq> 1) [0..<length example_photos])"
    by blast
  have c1: "map length (delivered (startAnalysis True True second_fails no_faces example_photos)) = [1]"
    using rs(1,2) by (simp add: example_photos_simps(1))
  have c2: "''p2'' \<notin> photoId ` (\<Union> (set ` set (delivered (startAnalysis True True second_fails no_faces example_photos))))"
  proof -
    from rs(3) have "''p2'' \<notin> photoId ` set rs" unfolding example_photos_simps(4) .
    with rs(1) show ?thesis by simp
  qed
  have c3: "progress_updates (startAnalysis True True second_fails no_faces example_photos) = [Fin 0, Fin 50]"
    using p unfolding f by (simp only: list.map v)
  from h1 h2 second_fails_simps(1) h4 c1 c2 c3 show ?thesis by (intro conjI)
qed

text \<open>
  C3 as stated asks for a progress update after each photo, skipped or not, \<open>N\<close> of them,
  with the value \<open>round(100 * processedCount / totalCount)\<close>. In the batch of two photos
  whose second image fails to load, the loop emits one progress update (50) and the
  logged error; the progress values of the whole run are 0 (the reset) and 50, and 100
  is never set. And after the 23rd of 40 photos the code sets 57, where
  \<open>round(100 * 23 / 40)\<close> is 58.
\<close>

theorem progress_skips_failed_photo:
  "length example_photos = 2 \<and>
   second_fails (image_url (example_photos ! 1)) = None \<and>
   snd (analysis_loop second_fails no_faces example_photos) = [SetProgress (Fin 50), ConsoleError 1] \<and>
   length (progress_updates (snd (analysis_loop second_fails no_faces example_photos))) = 1 \<and>
   progress_updates (startAnalysis True True second_fails no_faces example_photos) = [Fin 0, Fin 50] \<and>
   progress_value 22 40 = Fin 57 \<and> \<lfloor>100 * real (22 + 1) / real 40 + 1 / 2\<rfloor> = 58"
proof -
  have u: "[0..<length example_photos] = [0, 1]"
    by (simp add: example_photos_simps(1) upt_rec)
  have a: "snd (analysis_loop second_fails no_faces example_photos) = [SetProgress (Fin 50), ConsoleError 1]"
    using second_fails_simps
    by (simp add: analysis_loop_eq u) (simp add: example_photos_simps(1) progress_value_0_2)
  have b: "progress_updates (startAnalysis True True second_fails no_faces example_photos) = [Fin 0, Fin 50]"
    by (simp only: startAnalysis_progress [OF TrueI TrueI example_photos_simps(2)] example_filter)
       (simp add: example_photos_simps(1) progress_value_0_2)
  have c: "length (progress_updates (snd (analysis_loop second_fails no_faces example_photos))) = 1"
    unfolding a by (simp add: progress_updates_def)
  from example_photos_simps(1) second_fails_simps(2) a c b progress_value_22_40
  show ?thesis by (intro conjI) simp_all
qed

text \<open>
  C4. The claim: for every batch the delivered list is in descending order of
  \<open>overallScore\<close> (each entry \<open>>=\<close> the next) and results of equal score keep the order
  of the batch. The code on the batch of two photos that both load as the flat gray
  image of 64 by 64 pixels: both fused scores are \<^verbatim>\<open>NaN\<close>, and \<^verbatim>\<open>NaN >= NaN\<close> is false.
  (For batches of finite scores the order and the stability hold, lemma
  \<open>startAnalysis_ranked_when_finite\<close>.)
\<close>

theorem flat_batch_is_not_ranked:
  "map (map overallScore) (delivered (startAnalysis True True always_flat no_faces example_photos))
     = [[NaN, NaN]] \<and> \<not> js_ge NaN NaN"
proof -
  let ?xs = "fst (analysis_loop always_flat no_faces example_photos)"
  have ne: "example_photos \<noteq> []" by (rule example_photos_simps)
  have len: "length ?xs = 2"
    by (simp add: analysis_loop_eq always_flat_def example_photos_simps(1))
  have nan: "overallScore r = NaN" if "r \<in> set ?xs" for r
  proof -
    from that obtain i where "r = the (analyze_photo always_flat no_faces (example_photos ! i))"
      by (auto simp: analysis_loop_eq)
    moreover have "always_flat (image_url (example_photos ! i)) = Some (flat_image 64 64 gray_pixel)"
      by (simp add: always_flat_def)
    from analyze_photo_flat [of always_flat "example_photos ! i" 64 64 no_faces, OF this]
    obtain r' where "analyze_photo always_flat no_faces (example_photos ! i) = Some r'"
      "overallScore r' = NaN" by auto
    ultimately show ?thesis by simp
  qed
  have "map overallScore (js_sort by_score_descending ?xs)
          = replicate (length (js_sort by_score_descending ?xs)) NaN"
    by (rule map_const_replicate) (simp add: set_js_sort nan)
  then have "map overallScore (js_sort by_score_descending ?xs) = [NaN, NaN]"
    by (simp add: length_js_sort len numeral_2_eq_2)
  then show ?thesis
    by (simp add: startAnalysis_delivered [OF TrueI TrueI ne] js_ge_def js_eq_def)
qed

theorem flat_batch_is_not_ranked_witness:
  "length example_photos \<noteq> 0 \<and>
   map (map overallScore) (delivered (startAnalysis True True always_flat no_faces example_photos))
     = [[NaN, NaN]]"
  using flat_batch_is_not_ranked by (simp add: example_photos_simps)

text \<open>The supporting fact for batches of finite scores.\<close>

lemma startAnalysis_ranked_when_finite:
  assumes "modelsLoaded" "canvasPresent" "photos \<noteq> []"
    and "\<And>r. r \<in> set (fst (analysis_loop loadImage detectFaces photos)) \<Longrightarrow> \<exists>v. overallScore r = Fin v"
  shows "\<exists>rs. delivered (startAnalysis modelsLoaded canvasPresent loadImage detectFaces photos) = [rs] \<and>
              (\<forall>i. i + 1 < length rs \<longrightarrow> js_ge (overallScore (rs ! i)) (overallScore (rs ! (i + 1)))) \<and>
              (\<forall>s. filter (\<lambda>r. overallScore r = s) rs =
                     filter (\<lambda>r. overallScore r = s) (fst (analysis_loop loadImage detectFaces photos)))"
proof -
  let ?xs = "fst (analysis_loop loadImage detectFaces photos)"
  have "\<forall>i. i + 1 < length (js_sort by_score_descending ?xs) \<longrightarrow>
          js_ge (overallScore (js_sort by_score_descending ?xs ! i))
                (overallScore (js_sort by_score_descending ?xs ! (i + 1)))"
    using js_sort_descending [OF assms(4)] by (simp add: length_js_sort)
  then show ?thesis
    using startAnalysis_delivered [OF assms(1-3), of loadImage detectFaces] js_sort_stable
    by simp
qed

section \<open>The sampling of dominant colors\<close>

lemma length_stride_range: "length (stride_range b s) = (b + s - 1) div s"
  by (simp add: stride_range_def)

text \<open>The sampling loop visits fewer than 2000 pixels, whatever the size of the image.\<close>

lemma sampled_pixels_bound: "length (sampled_pixels img) < 2000"
proof -
  define n where "n = width img * height img"
  define s where "s = sampleRate n"
  have len: "length (sampled_pixels img) = (n + s - 1) div s"
    by (simp add: sampled_pixels_def Let_def length_stride_range n_def s_def)
  have s1: "1 \<le> s" by (simp add: s_def sampleRate_def)
  have "n < 1000 * (s + 1)"
  proof (cases "n < 1000")
    case True
    then show ?thesis using s1 by simp
  next
    case False
    then have "s = n div 1000" by (simp add: s_def sampleRate_def)
    moreover have "n < 1000 + 1000 * (n div 1000)"
      by (rule dividend_less_times_div) simp
    then have "n < 1000 * (n div 1000 + 1)" by simp
    ultimately show ?thesis by simp
  qed
  then have "n < 1000 * s + 1000" by simp
  moreover have "1000 * s + 1000 + s \<le> 2000 * s + 1" using s1 by simp
  ultimately have "n + s - 1 < 2000 * s" by simp
  then have "(n + s - 1) div s < 2000" using s1 by (simp add: div_less_iff_less_mult)
  with len show ?thesis by simp
qed

end
